theory Spec2Isabelle
  imports Complex_Main "HOL-Library.Multiset"
begin

section \<open>Conventions of the embedding\<close>

text \<open>
  The scheduler works on Python floats.  They are embedded as exact rationals
  (\<^typ>\<open>rat\<close>): the rounding of IEEE doubles is not represented.  A statement
  below that a value is \<open>a - b\<close>, \<open>a * b\<close> or \<open>a / b\<close> therefore names the
  operation that the code performs on its doubles; no identity between sums or
  products of several rounded values is stated for the program.  Strings are
  \<^typ>\<open>string\<close> over ASCII characters.  Calendar dates are embedded by their
  ordinal number (\<^typ>\<open>int\<close>); only their equality and their order are used by
  the code.  Time stamps written by the database (\<^verbatim>\<open>created_at\<close>,
  \<^verbatim>\<open>updated_at\<close>) are left out.
\<close>

type_synonym date = int

datatype error = ValueError | OverflowError | IndexError

section \<open>Python string and number primitives used by the parser\<close>

definition is_space :: "char \<Rightarrow> bool" where
  "is_space c = (let n = (of_char c :: nat) in (9 \<le> n \<and> n \<le> 13) \<or> (28 \<le> n \<and> n \<le> 32))"

definition strip :: "string \<Rightarrow> string" where
  "strip s = rev (dropWhile is_space (rev (dropWhile is_space s)))"

definition lower_char :: "char \<Rightarrow> char" where
  "lower_char c = (let n = (of_char c :: nat) in if 65 \<le> n \<and> n \<le> 90 then char_of (n + 32) else c)"

definition lower :: "string \<Rightarrow> string" where
  "lower s = map lower_char s"

text \<open>\<^verbatim>\<open>sub in s\<close> for a two-character \<^verbatim>\<open>sub\<close>.\<close>

fun contains2 :: "char \<Rightarrow> char \<Rightarrow> string \<Rightarrow> bool" where
  "contains2 a b (x # y # r) = ((x = a \<and> y = b) \<or> contains2 a b (y # r))"
| "contains2 a b r = False"

text \<open>\<^verbatim>\<open>s.replace(sub, '')\<close> for a two-character \<^verbatim>\<open>sub\<close>: the occurrences are
  removed from left to right, without overlap.\<close>

fun remove2 :: "char \<Rightarrow> char \<Rightarrow> string \<Rightarrow> string" where
  "remove2 a b (x # y # r) = (if x = a \<and> y = b then remove2 a b r else x # remove2 a b (y # r))"
| "remove2 a b r = r"

text \<open>\<^verbatim>\<open>s.split(c)\<close>: one more piece than there are separators.\<close>

fun split_on :: "char \<Rightarrow> string \<Rightarrow> string list" where
  "split_on c [] = [[]]"
| "split_on c (x # xs) =
     (case split_on c xs of
        p # ps \<Rightarrow> (if x = c then [] # p # ps else (x # p) # ps)
      | [] \<Rightarrow> [[]])"

definition is_digit :: "char \<Rightarrow> bool" where
  "is_digit c = (let n = (of_char c :: nat) in 48 \<le> n \<and> n \<le> 57)"

definition digit_val :: "char \<Rightarrow> int" where
  "digit_val c = of_char c - 48"

definition int_of_digits :: "string \<Rightarrow> int" where
  "int_of_digits ds = foldl (\<lambda>acc d. 10 * acc + digit_val d) 0 ds"

text \<open>
  Python's \<^verbatim>\<open>float(str)\<close>.  Around the number it accepts the white space of C only
  (tab to carriage return, and the space), where \<^verbatim>\<open>str.strip()\<close> also removes the
  separators 28 to 31.  An underscore is accepted only between two digits.  After an
  optional sign come either digits with an optional fraction and an optional
  exponent, or one of the words \<^verbatim>\<open>inf\<close>, \<^verbatim>\<open>infinity\<close>, \<^verbatim>\<open>nan\<close>.  For these
  words, and for a number that rounds to infinity (one of at least
  \<open>2 ^ 1024 - 2 ^ 970\<close>), Python returns a non-finite float and raises only when the
  parser converts the value with \<^verbatim>\<open>int()\<close> (lines 73-74 of scheduler.py, inside
  the same \<^verbatim>\<open>try\<close> block, with no effect in between); the embedding raises at the
  conversion from the string, which gives the parser the same result.
\<close>

definition is_c_space :: "char \<Rightarrow> bool" where
  "is_c_space c = (let n = (of_char c :: nat) in (9 \<le> n \<and> n \<le> 13) \<or> n = 32)"

definition c_strip :: "string \<Rightarrow> string" where
  "c_strip s = rev (dropWhile is_c_space (rev (dropWhile is_c_space s)))"

text \<open>The least value that rounds to infinity, \<open>2 ^ 1024 - 2 ^ 970\<close>, written out.\<close>

definition double_overflow :: rat where
  "double_overflow =
     179769313486231580793728971405303415079934132710037826936173778980444968292764750946649017977587207096330286416692887910946555547851940402630657488671505820681908902000708383676273854845817711531764475730270069855571366959622842914819860834936475292719074168444365510704342711559699508093042880177904174497792"

fun underscores_ok :: "bool \<Rightarrow> string \<Rightarrow> bool" where
  "underscores_ok prev_digit [] = True"
| "underscores_ok prev_digit (c # cs) =
     (if c = CHR ''_''
      then prev_digit \<and> (case cs of [] \<Rightarrow> False | d # _ \<Rightarrow> is_digit d) \<and> underscores_ok False cs
      else underscores_ok (is_digit c) cs)"

definition split_sign :: "string \<Rightarrow> bool \<times> string" where
  "split_sign s =
     (case s of
        [] \<Rightarrow> (False, [])
      | c # cs \<Rightarrow> if c = CHR ''-'' then (True, cs) else if c = CHR ''+'' then (False, cs) else (False, s))"

definition parse_exponent :: "string \<Rightarrow> error + int" where
  "parse_exponent s =
     (case s of
        [] \<Rightarrow> Inr 0
      | c # cs \<Rightarrow>
          if c = CHR ''e'' \<or> c = CHR ''E'' then
            (let (neg, ds) = split_sign cs in
             if ds \<noteq> [] \<and> list_all is_digit ds
             then Inr (if neg then - int_of_digits ds else int_of_digits ds)
             else Inl ValueError)
          else Inl ValueError)"

definition pow10 :: "int \<Rightarrow> rat" where
  "pow10 e = (if 0 \<le> e then 10 ^ nat e else 1 / 10 ^ nat (- e))"

definition py_float :: "string \<Rightarrow> error + rat" where
  "py_float str =
     (let s = c_strip str in
      if \<not> underscores_ok False s then Inl ValueError
      else
        let (neg, body) = split_sign (filter (\<lambda>c. c \<noteq> CHR ''_'') s);
            word = lower body
        in if word = ''inf'' \<or> word = ''infinity'' then Inl OverflowError
           else if word = ''nan'' then Inl ValueError
           else
             let ip = takeWhile is_digit body;
                 r1 = dropWhile is_digit body;
                 has_dot = (r1 \<noteq> [] \<and> hd r1 = CHR ''.'');
                 fp = (if has_dot then takeWhile is_digit (tl r1) else []);
                 r2 = (if has_dot then dropWhile is_digit (tl r1) else r1)
             in if ip = [] \<and> fp = [] then Inl ValueError
                else
                  (case parse_exponent r2 of
                     Inl e \<Rightarrow> Inl e
                   | Inr ex \<Rightarrow>
                       let m = of_int (int_of_digits (ip @ fp)) / 10 ^ length fp * pow10 ex
                       in if double_overflow \<le> m then Inl OverflowError
                          else Inr (if neg then - m else m)))"

text \<open>\<^verbatim>\<open>int(x)\<close> truncates towards zero; \<^verbatim>\<open>x % 24\<close> takes the sign of 24.\<close>

definition py_int :: "rat \<Rightarrow> int" where
  "py_int x = (if 0 \<le> x then \<lfloor>x\<rfloor> else \<lceil>x\<rceil>)"

definition py_mod :: "rat \<Rightarrow> rat \<Rightarrow> rat" where
  "py_mod x m = x - m * of_int \<lfloor>x / m\<rfloor>"

definition digit_char :: "int \<Rightarrow> char" where
  "digit_char n = char_of (48 + n)"

text \<open>The decimal digits of an integer that is not negative.\<close>

function digits_of :: "int \<Rightarrow> string" where
  "digits_of n = (if n < 10 then [digit_char n] else digits_of (n div 10) @ [digit_char (n mod 10)])"
  by pat_completeness auto

termination digits_of
  by (relation "measure nat") auto

declare digits_of.simps [simp del]

text \<open>The format \<^verbatim>\<open>{n:02d}\<close>: decimal, padded with zeros to width two, sign included.\<close>

definition fmt_02d :: "int \<Rightarrow> string" where
  "fmt_02d n =
     (if n < 0 then CHR ''-'' # digits_of (- n)
      else let ds = digits_of n in replicate (2 - length ds) CHR ''0'' @ ds)"

definition format_time :: "int \<Rightarrow> string" where
  "format_time h = fmt_02d h @ '':00:00''"

section \<open>The shift parser (scheduler.py, \<^verbatim>\<open>parse_shift_hours\<close>)\<close>

text \<open>The inner function \<^verbatim>\<open>parse_time\<close>; the exceptions of \<^verbatim>\<open>float\<close> are results.\<close>

definition parse_time :: "string \<Rightarrow> error + rat" where
  "parse_time time_str0 =
     (let time_str = strip time_str0 in
      if contains2 CHR ''a'' CHR ''m'' (lower time_str) then
        (case py_float (remove2 CHR ''a'' CHR ''m'' (lower time_str)) of
           Inl e \<Rightarrow> Inl e
         | Inr time_val \<Rightarrow> Inr (if time_val \<noteq> 12 then time_val else 0))
      else if contains2 CHR ''p'' CHR ''m'' (lower time_str) then
        (case py_float (remove2 CHR ''p'' CHR ''m'' (lower time_str)) of
           Inl e \<Rightarrow> Inl e
         | Inr time_val \<Rightarrow> Inr (if time_val \<noteq> 12 then time_val + 12 else 12))
      else
        (case py_float time_str of
           Inl e \<Rightarrow> Inl e
         | Inr time_val \<Rightarrow>
             Inr (if time_val < 12
                  then (if time_val \<ge> 5 then time_val else time_val + 12)
                  else time_val)))"

type_synonym parsed_shift = "string option \<times> string option \<times> rat"

definition zero_shift :: parsed_shift where
  "zero_shift = (None, None, 0)"

text \<open>
  The body of the \<^verbatim>\<open>try\<close> block.  \<open>Inl\<close> is an exception raised inside it:
  unpacking the split into two names raises \<^verbatim>\<open>ValueError\<close> unless there are exactly
  two pieces.
\<close>

definition parse_body :: "string \<Rightarrow> error + parsed_shift" where
  "parse_body shift_str =
     (if CHR ''-'' \<in> set shift_str then
        (case split_on CHR ''-'' shift_str of
           [start_time, end_time] \<Rightarrow>
             (case parse_time start_time of
                Inl e \<Rightarrow> Inl e
              | Inr start_hour \<Rightarrow>
                  (case parse_time end_time of
                     Inl e \<Rightarrow> Inl e
                   | Inr end_hour0 \<Rightarrow>
                       let end_hour = (if end_hour0 \<le> start_hour then end_hour0 + 24 else end_hour0);
                           hours = end_hour - start_hour;
                           formatted_start = format_time (py_int start_hour);
                           formatted_end = format_time (py_int (py_mod end_hour 24))
                       in Inr (Some formatted_start, Some formatted_end, hours)))
         | _ \<Rightarrow> Inl ValueError)
      else Inr zero_shift)"

text \<open>
  The result of \<^verbatim>\<open>parse_shift_hours\<close> together with the text handed to
  \<^verbatim>\<open>st.warning\<close>, if the handler of the \<^verbatim>\<open>try\<close> block ran.
\<close>

definition parse_shift_hours_w :: "string \<Rightarrow> parsed_shift \<times> string option" where
  "parse_shift_hours_w shift_str =
     (if shift_str = [] \<or> shift_str = ''CLOSED'' then (zero_shift, None)
      else case parse_body shift_str of
             Inr r \<Rightarrow> (r, None)
           | Inl e \<Rightarrow> (zero_shift, Some shift_str))"

definition parse_shift_hours :: "string \<Rightarrow> parsed_shift" where
  "parse_shift_hours shift_str = fst (parse_shift_hours_w shift_str)"

section \<open>The storage collaborator (database.py)\<close>

text \<open>
  A table is the list of its rows in the order of insertion, each with its
  \<^verbatim>\<open>id\<close>, and the next value of the \<^verbatim>\<open>AUTOINCREMENT\<close> counter.  A row is
  split into the columns the two save functions select by (the key) and the columns
  they overwrite (the value).
\<close>

record ('k, 'v) table =
  rows :: "(nat \<times> 'k \<times> 'v) list"
  next_id :: nat

text \<open>\<^verbatim>\<open>SELECT id FROM t WHERE key = ?\<close> followed by \<^verbatim>\<open>fetchone()\<close>.\<close>

definition select_id :: "'k \<Rightarrow> ('k, 'v) table \<Rightarrow> nat option" where
  "select_id k t = map_option fst (find (\<lambda>r. fst (snd r) = k) (rows t))"

text \<open>\<^verbatim>\<open>UPDATE t SET value = ? WHERE id = ?\<close>.\<close>

definition update_where_id :: "nat \<Rightarrow> 'v \<Rightarrow> ('k, 'v) table \<Rightarrow> ('k, 'v) table" where
  "update_where_id i v t =
     t\<lparr>rows := map (\<lambda>r. if fst r = i then (fst r, fst (snd r), v) else r) (rows t)\<rparr>"

text \<open>\<^verbatim>\<open>INSERT INTO t (key, value) VALUES (?, ?)\<close>.\<close>

definition insert_row :: "'k \<Rightarrow> 'v \<Rightarrow> ('k, 'v) table \<Rightarrow> ('k, 'v) table" where
  "insert_row k v t = t\<lparr>rows := rows t @ [(next_id t, k, v)], next_id := Suc (next_id t)\<rparr>"

text \<open>The pattern shared by \<^verbatim>\<open>save_schedule\<close> and \<^verbatim>\<open>save_labor_cost\<close>.\<close>

definition upsert :: "'k \<Rightarrow> 'v \<Rightarrow> ('k, 'v) table \<Rightarrow> ('k, 'v) table" where
  "upsert k v t =
     (case select_id k t of
        Some existing_entry \<Rightarrow> update_where_id existing_entry v t
      | None \<Rightarrow> insert_row k v t)"

text \<open>Reading a table back: the value of the first row with the given key.\<close>

definition lookup_row :: "'k \<Rightarrow> ('k, 'v) table \<Rightarrow> 'v option" where
  "lookup_row k t = map_option (\<lambda>r. snd (snd r)) (find (\<lambda>r. fst (snd r) = k) (rows t))"

text \<open>The primary key: ids are distinct and below the counter.\<close>

definition wf_table :: "('k, 'v) table \<Rightarrow> bool" where
  "wf_table t = (distinct (map fst (rows t)) \<and> list_all (\<lambda>r. fst r < next_id t) (rows t))"

record employee =
  emp_id :: nat
  pay_type :: string
  pay_rate :: rat

record sched_val =
  s_start_time :: "string option"
  s_end_time :: "string option"
  s_hours :: "rat option"
  s_cost :: "rat option"
  s_overtime :: bool

record labor_val =
  l_total_hours :: rat
  l_regular_hours :: rat
  l_overtime_hours :: rat
  l_total_cost :: rat
  l_labor_goal_percentage :: "rat option"
  l_required_sales :: "rat option"
  l_actual_sales :: "rat option"

record db =
  employees :: "employee list"
  schedules :: "(nat \<times> date, sched_val) table"
  labor_costs :: "(date, labor_val) table"

definition save_schedule ::
  "nat \<Rightarrow> date \<Rightarrow> string option \<Rightarrow> string option \<Rightarrow> rat option \<Rightarrow> rat option \<Rightarrow> bool \<Rightarrow> db \<Rightarrow> db" where
  "save_schedule employee_id dt start_time end_time hours cost overtime d =
     d\<lparr>schedules :=
         upsert (employee_id, dt)
           \<lparr>s_start_time = start_time, s_end_time = end_time, s_hours = hours,
            s_cost = cost, s_overtime = overtime\<rparr>
           (schedules d)\<rparr>"

definition save_labor_cost ::
  "date \<Rightarrow> rat \<Rightarrow> rat \<Rightarrow> rat \<Rightarrow> rat \<Rightarrow> rat option \<Rightarrow> rat option \<Rightarrow> rat option \<Rightarrow> db \<Rightarrow> db" where
  "save_labor_cost dt total_hrs regular_hrs overtime_hrs cost labor_goal_pct required_sales actual_sales d =
     d\<lparr>labor_costs :=
         upsert dt
           \<lparr>l_total_hours = total_hrs, l_regular_hours = regular_hrs,
            l_overtime_hours = overtime_hrs, l_total_cost = cost,
            l_labor_goal_percentage = labor_goal_pct, l_required_sales = required_sales,
            l_actual_sales = actual_sales\<rparr>
           (labor_costs d)\<rparr>"

definition wf_db :: "db \<Rightarrow> bool" where
  "wf_db d = (wf_table (schedules d) \<and> wf_table (labor_costs d))"

section \<open>The labor cost allocator (scheduler.py, \<^verbatim>\<open>calculate_labor_costs\<close>)\<close>

text \<open>
  A row of the schedule frame is the employee's id and the cells of the week; the
  lists \<^verbatim>\<open>dates\<close>, \<^verbatim>\<open>date_closed\<close> and the cells are built from the same
  \<^verbatim>\<open>range(7)\<close> by the caller and are walked together, as \<^verbatim>\<open>enumerate\<close> does.
\<close>

record sched_row =
  employee_id :: nat
  cells :: "string list"

type_synonym day = "date \<times> bool \<times> string"

definition week_days :: "date list \<Rightarrow> bool list \<Rightarrow> sched_row \<Rightarrow> day list" where
  "week_days dates date_closed row = zip dates (zip date_closed (cells row))"

text \<open>\<^verbatim>\<open>not date_closed[i]\<close> and \<^verbatim>\<open>shift_str and shift_str != "CLOSED"\<close>.\<close>

definition has_shift_text :: "day \<Rightarrow> bool" where
  "has_shift_text dy = (case dy of (date_obj, is_closed, shift_str) \<Rightarrow>
     \<not> is_closed \<and> shift_str \<noteq> [] \<and> shift_str \<noteq> ''CLOSED'')"

text \<open>The entries of the dictionary \<^verbatim>\<open>daily_labor\<close>.\<close>

record daily =
  total_hours :: rat
  regular_hours :: rat
  overtime_hours :: rat
  total_cost :: rat

definition zero_daily :: daily where
  "zero_daily = \<lparr>total_hours = 0, regular_hours = 0, overtime_hours = 0, total_cost = 0\<rparr>"

text \<open>A dictionary keeps the order of first insertion: an association list.\<close>

fun dict_set :: "'k \<Rightarrow> 'v \<Rightarrow> ('k \<times> 'v) list \<Rightarrow> ('k \<times> 'v) list" where
  "dict_set k v [] = [(k, v)]"
| "dict_set k v (p # ps) = (if fst p = k then (k, v) # ps else p # dict_set k v ps)"

fun dict_map_entry :: "'k \<Rightarrow> ('v \<Rightarrow> 'v) \<Rightarrow> ('k \<times> 'v) list \<Rightarrow> ('k \<times> 'v) list" where
  "dict_map_entry k f [] = []"
| "dict_map_entry k f (p # ps) = (if fst p = k then (k, f (snd p)) # ps else p # dict_map_entry k f ps)"

definition init_daily_labor :: "date list \<Rightarrow> (date \<times> daily) list" where
  "init_daily_labor dates = foldl (\<lambda>dl date_obj. dict_set date_obj zero_daily dl) [] dates"

text \<open>
  What one iteration of a cost loop hands to \<^verbatim>\<open>daily_labor\<close> and to
  \<^verbatim>\<open>save_schedule\<close>.
\<close>

record shift_entry =
  e_date :: date
  e_start_time :: "string option"
  e_end_time :: "string option"
  e_hours :: rat
  e_reg_hours :: rat
  e_ot_hours :: rat
  e_cost :: rat
  e_overtime :: bool

type_synonym times = "string option \<times> string option"

text \<open>
  First pass (lines 299-313).  The variables \<^verbatim>\<open>start_time\<close> and \<^verbatim>\<open>end_time\<close>
  are locals of the whole function: each parse overwrites them, and they keep the
  values of the last parse when the loop ends.
\<close>

fun first_pass :: "day list \<Rightarrow> rat \<times> (date \<times> rat) list \<times> times \<Rightarrow> rat \<times> (date \<times> rat) list \<times> times" where
  "first_pass [] acc = acc"
| "first_pass ((date_obj, is_closed, shift_str) # rest) (weekly_hours, weekly_shifts, tm) =
     (if is_closed then first_pass rest (weekly_hours, weekly_shifts, tm)
      else if shift_str \<noteq> [] \<and> shift_str \<noteq> ''CLOSED'' then
        (case parse_shift_hours shift_str of (start_time, end_time, hours) \<Rightarrow>
           if hours > 0
           then first_pass rest (weekly_hours + hours, weekly_shifts @ [(date_obj, hours)], (start_time, end_time))
           else first_pass rest (weekly_hours, weekly_shifts, (start_time, end_time)))
      else first_pass rest (weekly_hours, weekly_shifts, tm))"

text \<open>
  The split of one shift against the remaining regular hours (lines 331-345): the
  regular hours, the overtime hours and the new value of \<^verbatim>\<open>regular_remaining\<close>.
\<close>

definition split_hours :: "rat \<Rightarrow> rat \<Rightarrow> rat \<times> rat \<times> rat" where
  "split_hours regular_remaining shift_hours =
     (if regular_remaining > 0 then
        (if shift_hours \<le> regular_remaining
         then (shift_hours, 0, regular_remaining - shift_hours)
         else (regular_remaining, shift_hours - regular_remaining, 0))
      else (0, shift_hours, regular_remaining))"

text \<open>The overtime loop (lines 330-367), one entry for each element of \<^verbatim>\<open>weekly_shifts\<close>.\<close>

fun assign_hours :: "rat \<Rightarrow> times \<Rightarrow> rat \<Rightarrow> (date \<times> rat) list \<Rightarrow> shift_entry list" where
  "assign_hours rate tm regular_remaining [] = []"
| "assign_hours rate tm regular_remaining ((date_obj, shift_hours) # rest) =
     (case split_hours regular_remaining shift_hours of (reg_hours, ot_hours, regular_remaining') \<Rightarrow>
        let regular_cost = reg_hours * rate;
            overtime_cost = ot_hours * rate * (3 / 2);
            cost = regular_cost + overtime_cost
        in \<lparr>e_date = date_obj, e_start_time = fst tm, e_end_time = snd tm, e_hours = shift_hours,
             e_reg_hours = reg_hours, e_ot_hours = ot_hours, e_cost = cost,
             e_overtime = (ot_hours > 0)\<rparr>
           # assign_hours rate tm regular_remaining' rest)"

text \<open>The value of \<^verbatim>\<open>regular_remaining\<close> when the loop reaches its \<open>i\<close>-th shift.\<close>

fun remaining_before :: "rat \<Rightarrow> (date \<times> rat) list \<Rightarrow> nat \<Rightarrow> rat" where
  "remaining_before regular_remaining shifts 0 = regular_remaining"
| "remaining_before regular_remaining [] (Suc i) = regular_remaining"
| "remaining_before regular_remaining ((date_obj, shift_hours) # rest) (Suc i) =
     remaining_before (snd (snd (split_hours regular_remaining shift_hours))) rest i"

text \<open>The loop without overtime (lines 370-398).\<close>

fun regular_entries :: "rat \<Rightarrow> day list \<Rightarrow> shift_entry list" where
  "regular_entries rate [] = []"
| "regular_entries rate ((date_obj, is_closed, shift_str) # rest) =
     (if is_closed then regular_entries rate rest
      else if shift_str \<noteq> [] \<and> shift_str \<noteq> ''CLOSED'' then
        (case parse_shift_hours shift_str of (start_time, end_time, hours) \<Rightarrow>
           if hours > 0
           then \<lparr>e_date = date_obj, e_start_time = start_time, e_end_time = end_time, e_hours = hours,
                 e_reg_hours = hours, e_ot_hours = 0, e_cost = hours * rate, e_overtime = False\<rparr>
                # regular_entries rate rest
           else regular_entries rate rest)
      else regular_entries rate rest)"

text \<open>The loop of a salaried employee (lines 408-432).\<close>

fun salaried_entries :: "rat \<Rightarrow> day list \<Rightarrow> shift_entry list" where
  "salaried_entries daily_salary [] = []"
| "salaried_entries daily_salary ((date_obj, is_closed, shift_str) # rest) =
     (if is_closed then salaried_entries daily_salary rest
      else if shift_str \<noteq> [] \<and> shift_str \<noteq> ''CLOSED'' then
        (case parse_shift_hours shift_str of (start_time, end_time, hours) \<Rightarrow>
           \<lparr>e_date = date_obj, e_start_time = start_time, e_end_time = end_time, e_hours = hours,
            e_reg_hours = hours, e_ot_hours = 0, e_cost = daily_salary, e_overtime = False\<rparr>
           # salaried_entries daily_salary rest)
      else salaried_entries daily_salary rest)"

definition working_days :: "day list \<Rightarrow> nat" where
  "working_days days = length (filter has_shift_text days)"

text \<open>
  The second pass for one employee (lines 316-432): the entries in the order in which
  the loops produce them.  The loops of lines 370 and 408 parse the same cells as the
  first pass, so they leave \<^verbatim>\<open>start_time\<close> and \<^verbatim>\<open>end_time\<close> as the first pass
  left them.
\<close>

definition employee_entries :: "employee \<Rightarrow> day list \<Rightarrow> times \<Rightarrow> shift_entry list" where
  "employee_entries emp days tm0 =
     (case first_pass days (0, [], tm0) of (weekly_hours, weekly_shifts, tm) \<Rightarrow>
        if pay_type emp = ''Hourly'' then
          (if weekly_hours > 40
           then assign_hours (pay_rate emp) tm 40 (sort_key fst weekly_shifts)
           else regular_entries (pay_rate emp) days)
        else
          (if working_days days > 0
           then salaried_entries (pay_rate emp / of_nat (working_days days)) days
           else []))"

text \<open>The state of a run: the dictionary, the database, the two local variables.\<close>

record calc_state =
  daily_labor :: "(date \<times> daily) list"
  store :: db
  last_times :: times

text \<open>The "update daily totals" and "save to database" steps of an iteration.\<close>

definition post_entry :: "nat \<Rightarrow> shift_entry \<Rightarrow> calc_state \<Rightarrow> calc_state" where
  "post_entry emp_no e st =
     st\<lparr>daily_labor :=
          dict_map_entry (e_date e)
            (\<lambda>t. t\<lparr>total_hours := total_hours t + e_hours e,
                   regular_hours := regular_hours t + e_reg_hours e,
                   overtime_hours := overtime_hours t + e_ot_hours e,
                   total_cost := total_cost t + e_cost e\<rparr>)
            (daily_labor st),
        store := save_schedule emp_no (e_date e) (e_start_time e) (e_end_time e)
                   (Some (e_hours e)) (Some (e_cost e)) (e_overtime e) (store st)\<rparr>"

definition process_employee :: "employee \<Rightarrow> sched_row \<Rightarrow> day list \<Rightarrow> calc_state \<Rightarrow> calc_state" where
  "process_employee emp row days st =
     (foldl (\<lambda>s e. post_entry (employee_id row) e s) st (employee_entries emp days (last_times st)))
       \<lparr>last_times := snd (snd (first_pass days (0, [], last_times st)))\<rparr>"

text \<open>
  The loop over the rows of the frame (lines 288-432).  \<^verbatim>\<open>iloc[0]\<close> raises
  \<^verbatim>\<open>IndexError\<close> for an id that no active employee has; the rows saved before stay
  saved.
\<close>

fun process_rows :: "date list \<Rightarrow> bool list \<Rightarrow> sched_row list \<Rightarrow> calc_state \<Rightarrow> calc_state \<times> error option" where
  "process_rows dates date_closed [] st = (st, None)"
| "process_rows dates date_closed (row # rest) st =
     (case find (\<lambda>e. emp_id e = employee_id row) (employees (store st)) of
        None \<Rightarrow> (st, Some IndexError)
      | Some employee_data \<Rightarrow>
          process_rows dates date_closed rest
            (process_employee employee_data row (week_days dates date_closed row) st))"

definition required_sales_of :: "rat \<Rightarrow> rat \<Rightarrow> rat" where
  "required_sales_of cost labor_goal_pct =
     (if labor_goal_pct > 0 then cost / (labor_goal_pct / 100) else 0)"

text \<open>The loop that saves the daily totals (lines 437-454).\<close>

fun save_daily_totals :: "rat \<Rightarrow> (date \<times> daily) list \<Rightarrow> db \<Rightarrow> db" where
  "save_daily_totals labor_goal_pct [] d = d"
| "save_daily_totals labor_goal_pct ((date_obj, labor_data) # rest) d =
     (if total_cost labor_data = 0 then save_daily_totals labor_goal_pct rest d
      else save_daily_totals labor_goal_pct rest
             (save_labor_cost date_obj (total_hours labor_data) (regular_hours labor_data)
                (overtime_hours labor_data) (total_cost labor_data) (Some labor_goal_pct)
                (Some (required_sales_of (total_cost labor_data) labor_goal_pct)) None d))"

record settings =
  labor_goal_percentage :: rat

definition initial_state :: "date list \<Rightarrow> db \<Rightarrow> calc_state" where
  "initial_state dates d = \<lparr>daily_labor = init_daily_labor dates, store = d, last_times = (None, None)\<rparr>"

definition calculate_labor_costs ::
  "sched_row list \<Rightarrow> date list \<Rightarrow> bool list \<Rightarrow> settings \<Rightarrow> db \<Rightarrow> db \<times> error option" where
  "calculate_labor_costs schedule_df dates date_closed stg d =
     (case process_rows dates date_closed schedule_df (initial_state dates d) of
        (st, Some err) \<Rightarrow> (store st, Some err)
      | (st, None) \<Rightarrow>
          (save_daily_totals (labor_goal_percentage stg) (daily_labor st) (store st), None))"

section \<open>Notions used to state the properties\<close>

text \<open>What the parser returns for the cell of a day, whichever loop asks.\<close>

definition day_hours :: "day \<Rightarrow> rat" where
  "day_hours dy = snd (snd (parse_shift_hours (snd (snd dy))))"

definition day_times :: "day \<Rightarrow> times" where
  "day_times dy = (fst (parse_shift_hours (snd (snd dy))), fst (snd (parse_shift_hours (snd (snd dy)))))"

text \<open>The days that the first pass appends to \<^verbatim>\<open>weekly_shifts\<close>.\<close>

definition worked :: "day \<Rightarrow> bool" where
  "worked dy = (has_shift_text dy \<and> day_hours dy > 0)"

text \<open>
  The working days in the words of the specification: the days that are not closed and
  on which the parsed shift has a duration other than zero.
\<close>

definition nonzero_shift_day :: "day \<Rightarrow> bool" where
  "nonzero_shift_day dy = (\<not> fst (snd dy) \<and> day_hours dy \<noteq> 0)"

definition spec_working_days :: "day list \<Rightarrow> nat" where
  "spec_working_days days = length (filter nonzero_shift_day days)"

text \<open>
  The calls of the save functions that a run makes, as lists of keys and values in the
  order of the calls; they depend on the employees and on the arguments of the run, not
  on the two tables.
\<close>

definition apply_writes :: "('k \<times> 'v) list \<Rightarrow> ('k, 'v) table \<Rightarrow> ('k, 'v) table" where
  "apply_writes ws t = foldl (\<lambda>t' w. upsert (fst w) (snd w) t') t ws"

definition entry_write :: "nat \<Rightarrow> shift_entry \<Rightarrow> (nat \<times> date) \<times> sched_val" where
  "entry_write emp_no e =
     ((emp_no, e_date e),
      \<lparr>s_start_time = e_start_time e, s_end_time = e_end_time e, s_hours = Some (e_hours e),
       s_cost = Some (e_cost e), s_overtime = e_overtime e\<rparr>)"

fun row_writes ::
  "employee list \<Rightarrow> date list \<Rightarrow> bool list \<Rightarrow> sched_row list \<Rightarrow> times \<Rightarrow> ((nat \<times> date) \<times> sched_val) list" where
  "row_writes emps dates date_closed [] tm = []"
| "row_writes emps dates date_closed (row # rest) tm =
     (case find (\<lambda>e. emp_id e = employee_id row) emps of
        None \<Rightarrow> []
      | Some employee_data \<Rightarrow>
          map (entry_write (employee_id row))
            (employee_entries employee_data (week_days dates date_closed row) tm)
          @ row_writes emps dates date_closed rest
              (snd (snd (first_pass (week_days dates date_closed row) (0, [], tm)))))"

fun labor_writes :: "rat \<Rightarrow> (date \<times> daily) list \<Rightarrow> (date \<times> labor_val) list" where
  "labor_writes labor_goal_pct [] = []"
| "labor_writes labor_goal_pct ((date_obj, labor_data) # rest) =
     (if total_cost labor_data = 0 then labor_writes labor_goal_pct rest
      else (date_obj,
            \<lparr>l_total_hours = total_hours labor_data, l_regular_hours = regular_hours labor_data,
             l_overtime_hours = overtime_hours labor_data, l_total_cost = total_cost labor_data,
             l_labor_goal_percentage = Some labor_goal_pct,
             l_required_sales = Some (required_sales_of (total_cost labor_data) labor_goal_pct),
             l_actual_sales = None\<rparr>)
           # labor_writes labor_goal_pct rest)"

section \<open>Example inputs\<close>

text \<open>
  An hourly employee with five shifts of ten hours, Monday to Thursday from 8am and
  Friday from 9am; day 6 is empty and day 7 is closed.
\<close>

definition hourly_emp :: employee where
  "hourly_emp = \<lparr>emp_id = 1, pay_type = ''Hourly'', pay_rate = 10\<rparr>"

definition fifty_hour_week :: "day list" where
  "fifty_hour_week =
     [(1, False, ''8am-6pm''), (2, False, ''8am-6pm''), (3, False, ''8am-6pm''),
      (4, False, ''8am-6pm''), (5, False, ''9am-7pm''), (6, False, []), (7, True, ''CLOSED'')]"

text \<open>A week of four shifts of twelve hours and one of six: the fourth shift is split.\<close>

definition split_week :: "day list" where
  "split_week =
     [(1, False, ''8am-8pm''), (2, False, ''8am-8pm''), (3, False, ''8am-8pm''),
      (4, False, ''8am-8pm''), (5, False, ''9am-3pm''), (6, False, []), (7, True, ''CLOSED'')]"

text \<open>A salaried employee paid 700 a week.\<close>

definition salaried_emp :: employee where
  "salaried_emp = \<lparr>emp_id = 2, pay_type = ''Salary'', pay_rate = 700\<rparr>"

definition five_day_week :: "day list" where
  "five_day_week =
     [(1, False, ''9am-5pm''), (2, False, ''9am-5pm''), (3, False, ''9am-5pm''),
      (4, False, ''9am-1pm''), (5, False, ''9am-5pm''), (6, False, []), (7, True, ''CLOSED'')]"

text \<open>A week whose only cell is a text that does not parse.\<close>

definition unparsed_week :: "day list" where
  "unparsed_week = [(1, False, ''abc'')]"

text \<open>
  A database with both employees and empty tables, and the frame of their two weeks.
\<close>

definition example_db :: db where
  "example_db = \<lparr>employees = [hourly_emp, salaried_emp],
                  schedules = \<lparr>rows = [], next_id = 1\<rparr>,
                  labor_costs = \<lparr>rows = [], next_id = 1\<rparr>\<rparr>"

definition week_dates :: "date list" where
  "week_dates = [1, 2, 3, 4, 5, 6, 7]"

definition week_closed :: "bool list" where
  "week_closed = [False, False, False, False, False, False, True]"

definition example_frame :: "sched_row list" where
  "example_frame =
     [\<lparr>employee_id = 1, cells = map (\<lambda>dy. snd (snd dy)) fifty_hour_week\<rparr>,
      \<lparr>employee_id = 2, cells = map (\<lambda>dy. snd (snd dy)) five_day_week\<rparr>]"

text \<open>The same database after an earlier run left rows for employee 1 on day 5 and for day 5.\<close>

definition stale_db :: db where
  "stale_db = \<lparr>employees = [hourly_emp, salaried_emp],
                schedules =
                  \<lparr>rows = [(1, (1, 5), \<lparr>s_start_time = Some ''10:00:00'', s_end_time = Some ''13:00:00'',
                                         s_hours = Some 3, s_cost = Some 30, s_overtime = False\<rparr>)],
                   next_id = 2\<rparr>,
                labor_costs =
                  \<lparr>rows = [(1, 5, \<lparr>l_total_hours = 3, l_regular_hours = 3, l_overtime_hours = 0,
                                    l_total_cost = 30, l_labor_goal_percentage = Some 25,
                                    l_required_sales = Some 120, l_actual_sales = None\<rparr>)],
                   next_id = 2\<rparr>\<rparr>"

text \<open>One employee at 125 an hour with one shift of eight hours: a daily cost of 1000.\<close>

definition sales_db :: db where
  "sales_db = \<lparr>employees = [\<lparr>emp_id = 3, pay_type = ''Hourly'', pay_rate = 125\<rparr>],
                schedules = \<lparr>rows = [], next_id = 1\<rparr>,
                labor_costs = \<lparr>rows = [], next_id = 1\<rparr>\<rparr>"

definition sales_frame :: "sched_row list" where
  "sales_frame = [\<lparr>employee_id = 3, cells = [''9am-5pm'']\<rparr>]"

section \<open>Properties of the shift parser\<close>

lemma double_overflow_value: "double_overflow = 2 ^ 1024 - 2 ^ 970"
  by (simp add: double_overflow_def)

lemma length_split_on: "length (split_on c s) = Suc (length (filter (\<lambda>x. x = c) s))"
  by (induction s) (auto split: list.splits)

lemma separator_present: "0 < length (filter (\<lambda>x. x = c) s) \<Longrightarrow> c \<in> set s"
  by (induction s) (auto split: if_splits)

lemma parse_body_many_separators:
  assumes "1 < length (filter (\<lambda>x. x = CHR ''-'') s)"
  shows "parse_body s = Inl ValueError"
proof -
  have "0 < length (filter (\<lambda>x. x = CHR ''-'') s)" using assms by linarith
  then have m: "CHR ''-'' \<in> set s" by (rule separator_present)
  have len: "2 < length (split_on CHR ''-'' s)" using assms by (simp add: length_split_on)
  show ?thesis using m len by (auto simp: parse_body_def split: list.splits)
qed

lemma py_mod_12_small: "0 \<le> V \<Longrightarrow> V < 12 \<Longrightarrow> py_mod V 12 = V"
proof -
  assume "0 \<le> V" "V < 12"
  then have "0 \<le> V / 12" "V / 12 < 1" by auto
  then have "\<lfloor>V / 12\<rfloor> = 0" by (simp add: floor_eq_iff)
  then show ?thesis by (simp add: py_mod_def)
qed

lemma py_mod_12_12: "py_mod 12 12 = 0"
  by (simp add: py_mod_def)

text \<open>
  C1.  A bare token below 5 gets 12 added and a bare token from 5 on is kept, for the
  start and for the end alike.  The end token of \<^verbatim>\<open>10-6\<close> is therefore 6, not 18: it
  is not after the start, the overnight rule adds 24, and the parser returns start
  10:00:00, end 06:00:00 and 20 hours.  In the same way \<^verbatim>\<open>2-10\<close> is read as 14:00
  to 10:00 of the next day, 20 hours.
\<close>

theorem bare_numbers_10_6_actual:
  "parse_time ''10'' = Inr 10 \<and> parse_time ''6'' = Inr 6 \<and> parse_time ''2'' = Inr 14
   \<and> parse_shift_hours ''10-6'' = (Some ''10:00:00'', Some ''06:00:00'', 20)
   \<and> parse_shift_hours ''2-10'' = (Some ''14:00:00'', Some ''10:00:00'', 20)"
  by code_simp

text \<open>
  C6.  The parser returns for every string.  The empty string and \<^verbatim>\<open>CLOSED\<close> give
  the zero shift without a warning, and so does a string without \<^verbatim>\<open>-\<close>.  More than
  one \<^verbatim>\<open>-\<close>, a token that \<^verbatim>\<open>parse_time\<close> cannot convert, and any other exception
  of the \<^verbatim>\<open>try\<close> block give the zero shift and a warning that carries the string.
  Whatever the parser returns is the zero shift or the result of the block.
\<close>

theorem parse_failure_is_zero_shift:
  "parse_shift_hours_w [] = (zero_shift, None)
   \<and> parse_shift_hours_w ''CLOSED'' = (zero_shift, None)
   \<and> (CHR ''-'' \<notin> set s \<longrightarrow> parse_shift_hours_w s = (zero_shift, None))
   \<and> (1 < length (filter (\<lambda>x. x = CHR ''-'') s) \<longrightarrow> parse_shift_hours_w s = (zero_shift, Some s))
   \<and> (split_on CHR ''-'' s = [a, b] \<and> (parse_time a = Inl e \<or> parse_time b = Inl e)
        \<longrightarrow> parse_shift_hours_w s = (zero_shift, Some s))
   \<and> (parse_body s = Inl e
        \<longrightarrow> parse_shift_hours_w s = (zero_shift, if s = [] \<or> s = ''CLOSED'' then None else Some s))
   \<and> (parse_shift_hours s = zero_shift
        \<or> (s \<noteq> [] \<and> s \<noteq> ''CLOSED'' \<and> parse_body s = Inr (parse_shift_hours s)))"
proof (intro conjI impI)
  show "parse_shift_hours_w [] = (zero_shift, None)" by (simp add: parse_shift_hours_w_def)
  show "parse_shift_hours_w ''CLOSED'' = (zero_shift, None)" by (simp add: parse_shift_hours_w_def)
  show "parse_shift_hours_w s = (zero_shift, None)" if "CHR ''-'' \<notin> set s"
    using that by (simp add: parse_shift_hours_w_def parse_body_def)
  show "parse_shift_hours_w s = (zero_shift, Some s)" if h: "1 < length (filter (\<lambda>x. x = CHR ''-'') s)"
  proof -
    have "s \<noteq> []" "s \<noteq> ''CLOSED''" using h by auto
    then show ?thesis using parse_body_many_separators [OF h] by (simp add: parse_shift_hours_w_def)
  qed
  show "parse_shift_hours_w s = (zero_shift, Some s)"
    if h: "split_on CHR ''-'' s = [a, b] \<and> (parse_time a = Inl e \<or> parse_time b = Inl e)"
  proof -
    have "length (filter (\<lambda>x. x = CHR ''-'') s) = 1"
      using h length_split_on [of "CHR ''-''" s] by simp
    then have ne: "s \<noteq> []" "s \<noteq> ''CLOSED''" and m: "CHR ''-'' \<in> set s"
      by (auto intro: separator_present)
    have "\<exists>e'. parse_body s = Inl e'" using h m
      by (auto simp: parse_body_def split: sum.splits)
    then show ?thesis using ne by (auto simp: parse_shift_hours_w_def)
  qed
  show "parse_shift_hours_w s = (zero_shift, if s = [] \<or> s = ''CLOSED'' then None else Some s)"
    if "parse_body s = Inl e"
    using that by (simp add: parse_shift_hours_w_def)
  show "parse_shift_hours s = zero_shift
        \<or> (s \<noteq> [] \<and> s \<noteq> ''CLOSED'' \<and> parse_body s = Inr (parse_shift_hours s))"
    by (auto simp: parse_shift_hours_def parse_shift_hours_w_def split: sum.splits)
qed

theorem parse_failure_is_zero_shift_witness:
  "CHR ''-'' \<notin> set ''9am'' \<and> parse_shift_hours_w ''9am'' = (zero_shift, None)
   \<and> 1 < length (filter (\<lambda>x. x = CHR ''-'') ''1-2-3'')
   \<and> parse_shift_hours_w ''1-2-3'' = (zero_shift, Some ''1-2-3'')
   \<and> split_on CHR ''-'' ''abc-5'' = [''abc'', ''5''] \<and> parse_time ''abc'' = Inl ValueError
   \<and> parse_body ''abc-5'' = Inl ValueError
   \<and> parse_shift_hours_w ''abc-5'' = (zero_shift, Some ''abc-5'')"
proof -
  have h1: "CHR ''-'' \<notin> set ''9am''" by simp
  have h2: "1 < length (filter (\<lambda>x. x = CHR ''-'') ''1-2-3'')" by simp
  have h3: "split_on CHR ''-'' ''abc-5'' = [''abc'', ''5'']" by simp
  have h4: "parse_time ''abc'' = Inl ValueError" by code_simp
  have h5: "parse_body ''abc-5'' = Inl ValueError" by code_simp
  note c2 = conjunct2
  note t1 = parse_failure_is_zero_shift
              [where s = "''9am''", THEN c2, THEN c2, THEN conjunct1, THEN mp, OF h1]
  note t2 = parse_failure_is_zero_shift
              [where s = "''1-2-3''", THEN c2, THEN c2, THEN c2, THEN conjunct1, THEN mp, OF h2]
  note t3 = parse_failure_is_zero_shift
              [where s = "''abc-5''" and a = "''abc''" and b = "''5''" and e = ValueError,
               THEN c2, THEN c2, THEN c2, THEN c2, THEN conjunct1, THEN mp,
               OF conjI [OF h3 disjI1 [OF h4]]]
  show ?thesis by (intro conjI) (rule h1 t1 h2 t2 h3 h4 h5 t3)+
qed

text \<open>
  C9.  \<^verbatim>\<open>9am-5pm\<close> gives 09:00:00, 17:00:00 and 8 hours, and \<^verbatim>\<open>11pm-7am\<close>
  gives 23:00:00, 07:00:00 and 8 hours.  In the 12-hour notation of the shift texts,
  where the value \<open>V\<close> of a token is at most 12, an am token maps to \<open>V mod 12\<close> and
  a pm token to \<open>(V mod 12) + 12\<close>.  When the end hour is at most the start hour, 24
  is added to it before the duration is taken, and the stored end time is the end hour
  modulo 24.
\<close>

theorem am_pm_and_overnight:
  "parse_shift_hours ''9am-5pm'' = (Some ''09:00:00'', Some ''17:00:00'', 8)
   \<and> parse_shift_hours ''11pm-7am'' = (Some ''23:00:00'', Some ''07:00:00'', 8)
   \<and> (contains2 CHR ''a'' CHR ''m'' (lower (strip tok))
        \<and> py_float (remove2 CHR ''a'' CHR ''m'' (lower (strip tok))) = Inr V \<and> 0 \<le> V \<and> V \<le> 12
        \<longrightarrow> parse_time tok = Inr (py_mod V 12))
   \<and> (\<not> contains2 CHR ''a'' CHR ''m'' (lower (strip tok))
        \<and> contains2 CHR ''p'' CHR ''m'' (lower (strip tok))
        \<and> py_float (remove2 CHR ''p'' CHR ''m'' (lower (strip tok))) = Inr V \<and> 0 \<le> V \<and> V \<le> 12
        \<longrightarrow> parse_time tok = Inr (py_mod V 12 + 12))
   \<and> (split_on CHR ''-'' s = [a, b] \<and> parse_time a = Inr start_hour \<and> parse_time b = Inr end_hour
        \<longrightarrow> parse_shift_hours s =
              (Some (format_time (py_int start_hour)),
               Some (format_time (py_int (py_mod (if end_hour \<le> start_hour then end_hour + 24 else end_hour) 24))),
               (if end_hour \<le> start_hour then end_hour + 24 else end_hour) - start_hour))"
proof (intro conjI impI)
  show "parse_shift_hours ''9am-5pm'' = (Some ''09:00:00'', Some ''17:00:00'', 8)"
    by code_simp
  show "parse_shift_hours ''11pm-7am'' = (Some ''23:00:00'', Some ''07:00:00'', 8)"
    by code_simp
  show "parse_time tok = Inr (py_mod V 12)"
    if h: "contains2 CHR ''a'' CHR ''m'' (lower (strip tok))
        \<and> py_float (remove2 CHR ''a'' CHR ''m'' (lower (strip tok))) = Inr V \<and> 0 \<le> V \<and> V \<le> 12"
  proof (cases "V = 12")
    case True
    then show ?thesis using h by (simp add: parse_time_def Let_def py_mod_12_12)
  next
    case False
    then have "py_mod V 12 = V" using h by (intro py_mod_12_small) auto
    then show ?thesis using h False by (simp add: parse_time_def Let_def)
  qed
  show "parse_time tok = Inr (py_mod V 12 + 12)"
    if h: "\<not> contains2 CHR ''a'' CHR ''m'' (lower (strip tok))
        \<and> contains2 CHR ''p'' CHR ''m'' (lower (strip tok))
        \<and> py_float (remove2 CHR ''p'' CHR ''m'' (lower (strip tok))) = Inr V \<and> 0 \<le> V \<and> V \<le> 12"
  proof (cases "V = 12")
    case True
    then show ?thesis using h by (simp add: parse_time_def Let_def py_mod_12_12)
  next
    case False
    then have "py_mod V 12 = V" using h by (intro py_mod_12_small) auto
    then show ?thesis using h False by (simp add: parse_time_def Let_def)
  qed
  show "parse_shift_hours s =
          (Some (format_time (py_int start_hour)),
           Some (format_time (py_int (py_mod (if end_hour \<le> start_hour then end_hour + 24 else end_hour) 24))),
           (if end_hour \<le> start_hour then end_hour + 24 else end_hour) - start_hour)"
    if h: "split_on CHR ''-'' s = [a, b] \<and> parse_time a = Inr start_hour \<and> parse_time b = Inr end_hour"
  proof -
    have "length (filter (\<lambda>x. x = CHR ''-'') s) = 1"
      using h length_split_on [of "CHR ''-''" s] by simp
    then have ne: "s \<noteq> []" "s \<noteq> ''CLOSED''" and m: "CHR ''-'' \<in> set s"
      by (auto intro: separator_present)
    have "parse_body s =
          Inr (Some (format_time (py_int start_hour)),
               Some (format_time (py_int (py_mod (if end_hour \<le> start_hour then end_hour + 24 else end_hour) 24))),
               (if end_hour \<le> start_hour then end_hour + 24 else end_hour) - start_hour)"
      using h m by (simp add: parse_body_def Let_def)
    then show ?thesis using ne by (simp add: parse_shift_hours_def parse_shift_hours_w_def)
  qed
qed

theorem am_pm_and_overnight_witness:
  "contains2 CHR ''a'' CHR ''m'' (lower (strip ''12am''))
   \<and> py_float (remove2 CHR ''a'' CHR ''m'' (lower (strip ''12am''))) = Inr 12
   \<and> parse_time ''12am'' = Inr (py_mod 12 12)
   \<and> \<not> contains2 CHR ''a'' CHR ''m'' (lower (strip ''11pm''))
   \<and> contains2 CHR ''p'' CHR ''m'' (lower (strip ''11pm''))
   \<and> py_float (remove2 CHR ''p'' CHR ''m'' (lower (strip ''11pm''))) = Inr 11
   \<and> parse_time ''11pm'' = Inr (py_mod 11 12 + 12)
   \<and> split_on CHR ''-'' ''11pm-7am'' = [''11pm'', ''7am'']
   \<and> parse_time ''11pm'' = Inr 23 \<and> parse_time ''7am'' = Inr 7
   \<and> parse_shift_hours ''11pm-7am'' =
       (Some (format_time (py_int 23)),
        Some (format_time (py_int (py_mod (if (7::rat) \<le> 23 then 7 + 24 else 7) 24))),
        (if (7::rat) \<le> 23 then 7 + 24 else 7) - 23)"
proof -
  have a1: "contains2 CHR ''a'' CHR ''m'' (lower (strip ''12am''))" by code_simp
  have a2: "py_float (remove2 CHR ''a'' CHR ''m'' (lower (strip ''12am''))) = Inr 12" by code_simp
  have p1: "\<not> contains2 CHR ''a'' CHR ''m'' (lower (strip ''11pm''))" by code_simp
  have p2: "contains2 CHR ''p'' CHR ''m'' (lower (strip ''11pm''))" by code_simp
  have p3: "py_float (remove2 CHR ''p'' CHR ''m'' (lower (strip ''11pm''))) = Inr 11" by code_simp
  have s1: "split_on CHR ''-'' ''11pm-7am'' = [''11pm'', ''7am'']" by simp
  have s2: "parse_time ''11pm'' = Inr 23" by code_simp
  have s3: "parse_time ''7am'' = Inr 7" by code_simp
  have b12: "(0::rat) \<le> 12" "(12::rat) \<le> 12" and b11: "(0::rat) \<le> 11" "(11::rat) \<le> 12"
    by simp_all
  note c2 = conjunct2
  note c1 = am_pm_and_overnight
              [where tok = "''12am''" and V = 12, THEN c2, THEN c2, THEN conjunct1, THEN mp,
               OF conjI [OF a1 conjI [OF a2 conjI [OF b12]]]]
  note c3 = am_pm_and_overnight
              [where tok = "''11pm''" and V = 11, THEN c2, THEN c2, THEN c2, THEN conjunct1, THEN mp,
               OF conjI [OF p1 conjI [OF p2 conjI [OF p3 conjI [OF b11]]]]]
  note c4 = am_pm_and_overnight
              [where s = "''11pm-7am''" and a = "''11pm''" and b = "''7am''"
                 and start_hour = 23 and end_hour = 7,
               THEN c2, THEN c2, THEN c2, THEN c2, THEN mp,
               OF conjI [OF s1 conjI [OF s2 s3]]]
  show ?thesis by (intro conjI) (rule a1 a2 p1 p2 p3 s1 s2 s3 c1 c3 c4)+
qed

section \<open>Properties of the allocator\<close>

lemma has_shift_text_simp:
  "has_shift_text (d, c, s) = (\<not> c \<and> s \<noteq> [] \<and> s \<noteq> ''CLOSED'')"
  by (simp add: has_shift_text_def)

lemma day_hours_simp: "day_hours (d, c, s) = snd (snd (parse_shift_hours s))"
  by (simp add: day_hours_def)

lemma day_times_simp:
  "day_times (d, c, s) = (fst (parse_shift_hours s), fst (snd (parse_shift_hours s)))"
  by (simp add: day_times_def)

lemma worked_simp:
  "worked (d, c, s) = (\<not> c \<and> s \<noteq> [] \<and> s \<noteq> ''CLOSED'' \<and> 0 < snd (snd (parse_shift_hours s)))"
  by (simp add: worked_def has_shift_text_simp day_hours_simp)

lemmas day_simps = has_shift_text_simp day_hours_simp day_times_simp worked_simp

lemma first_pass_eq:
  "first_pass days (wh, ws, tm) =
     (wh + sum_list (map day_hours (filter worked days)),
      ws @ map (\<lambda>dy. (fst dy, day_hours dy)) (filter worked days),
      (if filter has_shift_text days = [] then tm else day_times (last (filter has_shift_text days))))"
proof (induction days arbitrary: wh ws tm)
  case Nil
  then show ?case by simp
next
  case (Cons dy days)
  obtain d c s where dy: "dy = (d, c, s)" by (cases dy) auto
  show ?case
    by (simp add: dy Cons day_simps split: prod.splits)
qed

lemma regular_entries_eq:
  "regular_entries rate days =
     map (\<lambda>dy. \<lparr>e_date = fst dy, e_start_time = fst (day_times dy), e_end_time = snd (day_times dy),
                e_hours = day_hours dy, e_reg_hours = day_hours dy, e_ot_hours = 0,
                e_cost = day_hours dy * rate, e_overtime = False\<rparr>) (filter worked days)"
proof (induction days)
  case Nil
  then show ?case by simp
next
  case (Cons dy days)
  obtain d c s where dy: "dy = (d, c, s)" by (cases dy) auto
  show ?case
    by (simp add: dy Cons day_simps split: prod.splits)
qed

lemma salaried_entries_eq:
  "salaried_entries daily_salary days =
     map (\<lambda>dy. \<lparr>e_date = fst dy, e_start_time = fst (day_times dy), e_end_time = snd (day_times dy),
                e_hours = day_hours dy, e_reg_hours = day_hours dy, e_ot_hours = 0,
                e_cost = daily_salary, e_overtime = False\<rparr>) (filter has_shift_text days)"
proof (induction days)
  case Nil
  then show ?case by simp
next
  case (Cons dy days)
  obtain d c s where dy: "dy = (d, c, s)" by (cases dy) auto
  show ?case
    by (simp add: dy Cons day_simps split: prod.splits)
qed

lemma assign_hours_length: "length (assign_hours rate tm b xs) = length xs"
  by (induction xs arbitrary: b) (auto split: prod.splits)

lemma weekly_shifts_positive:
  "\<forall>p \<in> set (sort_key fst (map (\<lambda>dy. (fst dy, day_hours dy)) (filter worked days))). 0 < snd p"
  by (auto simp: worked_def)

lemma hourly_entries_cases:
  assumes "pay_type emp = ''Hourly''"
  shows "employee_entries emp days tm0 =
     (if 40 < sum_list (map day_hours (filter worked days))
      then assign_hours (pay_rate emp)
             (if filter has_shift_text days = [] then tm0 else day_times (last (filter has_shift_text days)))
             40 (sort_key fst (map (\<lambda>dy. (fst dy, day_hours dy)) (filter worked days)))
      else regular_entries (pay_rate emp) days)"
  using assms by (simp add: employee_entries_def first_pass_eq)

lemma first_pass_hours: "fst (first_pass days (0, [], tm0)) = sum_list (map day_hours (filter worked days))"
  by (simp add: first_pass_eq)

lemma assign_hours_times:
  "e \<in> set (assign_hours rate tm b xs) \<Longrightarrow> e_start_time e = fst tm \<and> e_end_time e = snd tm"
  by (induction xs arbitrary: b) (auto split: prod.splits)

lemma find_key_update_where_id:
  "find (\<lambda>r. fst (snd r) = k) (map (\<lambda>r. if fst r = i then (fst r, fst (snd r), v) else r) rs)
     = map_option (\<lambda>r. if fst r = i then (fst r, fst (snd r), v) else r) (find (\<lambda>r. fst (snd r) = k) rs)"
  by (induction rs) auto

lemma find_append_none: "find P xs = None \<Longrightarrow> find P (xs @ ys) = find P ys"
  by (induction xs) (auto split: if_splits)

lemma lookup_upsert_same: "lookup_row k (upsert k v t) = Some v"
proof (cases "find (\<lambda>r. fst (snd r) = k) (rows t)")
  case None
  then have "find (\<lambda>r. fst (snd r) = k) (rows t @ [(next_id t, k, v)]) = Some (next_id t, k, v)"
    by (simp add: find_append_none)
  then show ?thesis using None
    by (simp add: lookup_row_def upsert_def select_id_def insert_row_def)
next
  case (Some r)
  then show ?thesis
    by (simp add: lookup_row_def upsert_def select_id_def update_where_id_def find_key_update_where_id)
qed

text \<open>
  C5.  When an hourly employee's weekly hours exceed 40, every entry of the week has
  the start and end time that the parser returned for the last cell of the first pass
  that holds a shift text, whatever the date of the entry; this is what
  \<^verbatim>\<open>save_schedule\<close> stores for the entry.
\<close>

theorem overtime_entries_share_times:
  assumes "pay_type emp = ''Hourly''"
      and "40 < fst (first_pass days (0, [], tm0))"
      and "e \<in> set (employee_entries emp days tm0)"
  shows "filter has_shift_text days \<noteq> []
       \<and> (e_start_time e, e_end_time e) = day_times (last (filter has_shift_text days))
       \<and> map_option (\<lambda>v. (s_start_time v, s_end_time v))
           (lookup_row (emp_no, e_date e) (schedules (store (post_entry emp_no e st))))
           = Some (day_times (last (filter has_shift_text days)))"
proof -
  have big: "40 < sum_list (map day_hours (filter worked days))"
    using assms(2) by (simp add: first_pass_hours)
  have ne: "filter has_shift_text days \<noteq> []"
  proof
    assume "filter has_shift_text days = []"
    then have "filter worked days = []"
      by (auto simp: filter_empty_conv worked_def)
    with big show False by simp
  qed
  have "e \<in> set (assign_hours (pay_rate emp) (day_times (last (filter has_shift_text days))) 40
                   (sort_key fst (map (\<lambda>dy. (fst dy, day_hours dy)) (filter worked days))))"
    using assms(1,3) big ne by (simp add: hourly_entries_cases)
  then have tm: "(e_start_time e, e_end_time e) = day_times (last (filter has_shift_text days))"
    by (simp add: assign_hours_times)
  have "map_option (\<lambda>v. (s_start_time v, s_end_time v))
           (lookup_row (emp_no, e_date e) (schedules (store (post_entry emp_no e st))))
        = Some (e_start_time e, e_end_time e)"
    by (simp add: post_entry_def save_schedule_def lookup_upsert_same)
  then show ?thesis using ne tm by simp
qed

theorem overtime_entries_share_times_witness:
  "pay_type hourly_emp = ''Hourly''
   \<and> 40 < fst (first_pass fifty_hour_week (0, [], (None, None)))
   \<and> \<lparr>e_date = 1, e_start_time = Some ''09:00:00'', e_end_time = Some ''19:00:00'', e_hours = 10,
       e_reg_hours = 10, e_ot_hours = 0, e_cost = 100, e_overtime = False\<rparr>
       \<in> set (employee_entries hourly_emp fifty_hour_week (None, None))
   \<and> day_times (last (filter has_shift_text fifty_hour_week)) = (Some ''09:00:00'', Some ''19:00:00'')
   \<and> day_times (1, False, ''8am-6pm'') = (Some ''08:00:00'', Some ''18:00:00'')
   \<and> (e_start_time \<lparr>e_date = 1, e_start_time = Some ''09:00:00'', e_end_time = Some ''19:00:00'', e_hours = 10,
       e_reg_hours = 10, e_ot_hours = 0, e_cost = 100, e_overtime = False\<rparr>,
      e_end_time \<lparr>e_date = 1, e_start_time = Some ''09:00:00'', e_end_time = Some ''19:00:00'', e_hours = 10,
       e_reg_hours = 10, e_ot_hours = 0, e_cost = 100, e_overtime = False\<rparr>)
       = day_times (last (filter has_shift_text fifty_hour_week))"
proof -
  have h1: "pay_type hourly_emp = ''Hourly''"
    by (simp add: hourly_emp_def)
  have h2: "40 < fst (first_pass fifty_hour_week (0, [], (None, None)))"
    by code_simp
  have h3: "\<lparr>e_date = 1, e_start_time = Some ''09:00:00'', e_end_time = Some ''19:00:00'', e_hours = 10,
       e_reg_hours = 10, e_ot_hours = 0, e_cost = 100, e_overtime = False\<rparr>
       \<in> set (employee_entries hourly_emp fifty_hour_week (None, None))"
    by code_simp
  have v1: "day_times (last (filter has_shift_text fifty_hour_week)) = (Some ''09:00:00'', Some ''19:00:00'')"
    by code_simp
  have v2: "day_times (1, False, ''8am-6pm'') = (Some ''08:00:00'', Some ''18:00:00'')"
    by code_simp
  note t = overtime_entries_share_times [OF h1 h2 h3, THEN conjunct2, THEN conjunct1]
  show ?thesis
    by (rule conjI [OF h1 conjI [OF h2 conjI [OF h3 conjI [OF v1 conjI [OF v2 t]]]]])
qed

lemma salaried_entries_cases:
  assumes "pay_type emp \<noteq> ''Hourly''"
  shows "employee_entries emp days tm0 =
     (if 0 < working_days days
      then salaried_entries (pay_rate emp / of_nat (working_days days)) days
      else [])"
  using assms by (simp add: employee_entries_def first_pass_eq)

lemma nonzero_shift_day_text: "nonzero_shift_day dy \<Longrightarrow> has_shift_text dy"
proof -
  obtain d c s where dy: "dy = (d, c, s)" by (cases dy) auto
  assume "nonzero_shift_day dy"
  then have c: "\<not> c" and h: "snd (snd (parse_shift_hours s)) \<noteq> 0"
    by (simp_all add: dy nonzero_shift_day_def day_hours_simp)
  have "s \<noteq> [] \<and> s \<noteq> ''CLOSED''"
  proof (rule ccontr)
    assume "\<not> (s \<noteq> [] \<and> s \<noteq> ''CLOSED'')"
    then have "parse_shift_hours s = zero_shift"
      by (auto simp: parse_shift_hours_def parse_shift_hours_w_def)
    with h show False by (simp add: zero_shift_def)
  qed
  then show ?thesis using c by (simp add: dy has_shift_text_simp)
qed

text \<open>
  C2, as the claim states it, on a week whose only cell is \<^verbatim>\<open>abc\<close>: no day has a
  parsed shift of nonzero duration, yet the code counts one working day and charges
  the whole salary to it, with 0 hours.
\<close>

theorem salaried_unparsed_day_counterexample:
  "pay_type salaried_emp \<noteq> ''Hourly''
   \<and> spec_working_days unparsed_week = 0
   \<and> working_days unparsed_week = 1
   \<and> map e_cost (employee_entries salaried_emp unparsed_week (None, None)) = [700]
   \<and> map e_hours (employee_entries salaried_emp unparsed_week (None, None)) = [0]"
  by code_simp

text \<open>
  C2, amended.  For a salaried employee the working days are the days that are not
  closed and whose cell holds a text other than \<^verbatim>\<open>CLOSED\<close>, whether or not the text
  parses to a shift.  Without a working day the employee has no entry.  Otherwise there
  is one entry for each working day, with the parsed duration as its hours and the
  quotient \<open>pay_rate / working_days\<close> as its cost, the same on every working day and
  never overtime.  When every such text parses to a duration other than zero, the
  working days are the days with a parsed shift of nonzero duration.
\<close>

theorem salaried_even_distribution:
  assumes "pay_type emp \<noteq> ''Hourly''"
  shows "(working_days days = 0 \<longrightarrow> employee_entries emp days tm0 = [])
       \<and> (0 < working_days days \<longrightarrow>
            map e_date (employee_entries emp days tm0) = map fst (filter has_shift_text days)
          \<and> map e_hours (employee_entries emp days tm0) = map day_hours (filter has_shift_text days)
          \<and> length (employee_entries emp days tm0) = working_days days
          \<and> (\<forall>e \<in> set (employee_entries emp days tm0).
                e_cost e = pay_rate emp / of_nat (working_days days)
                \<and> \<not> e_overtime e \<and> e_ot_hours e = 0 \<and> e_reg_hours e = e_hours e))
       \<and> ((\<forall>dy \<in> set days. has_shift_text dy \<longrightarrow> day_hours dy \<noteq> 0)
            \<longrightarrow> working_days days = spec_working_days days)"
proof (intro conjI impI)
  show "employee_entries emp days tm0 = []" if "working_days days = 0"
    using that assms by (simp add: salaried_entries_cases)
next
  assume wd: "0 < working_days days"
  have es: "employee_entries emp days tm0 =
            salaried_entries (pay_rate emp / of_nat (working_days days)) days"
    using wd assms by (simp add: salaried_entries_cases)
  show "map e_date (employee_entries emp days tm0) = map fst (filter has_shift_text days)"
    by (simp add: es salaried_entries_eq comp_def)
  show "map e_hours (employee_entries emp days tm0) = map day_hours (filter has_shift_text days)"
    by (simp add: es salaried_entries_eq comp_def)
  show "length (employee_entries emp days tm0) = working_days days"
    by (simp add: es salaried_entries_eq working_days_def)
  show "\<forall>e \<in> set (employee_entries emp days tm0).
          e_cost e = pay_rate emp / of_nat (working_days days)
          \<and> \<not> e_overtime e \<and> e_ot_hours e = 0 \<and> e_reg_hours e = e_hours e"
    by (auto simp: es salaried_entries_eq)
next
  assume a: "\<forall>dy \<in> set days. has_shift_text dy \<longrightarrow> day_hours dy \<noteq> 0"
  have "filter has_shift_text days = filter nonzero_shift_day days"
  proof (rule filter_cong [OF refl])
    fix dy assume m: "dy \<in> set days"
    show "has_shift_text dy = nonzero_shift_day dy"
    proof
      assume t: "has_shift_text dy"
      then have "day_hours dy \<noteq> 0" using a m by blast
      moreover have "\<not> fst (snd dy)" using t by (cases dy) (simp add: has_shift_text_def)
      ultimately show "nonzero_shift_day dy" by (simp add: nonzero_shift_day_def)
    next
      assume "nonzero_shift_day dy"
      then show "has_shift_text dy" by (rule nonzero_shift_day_text)
    qed
  qed
  then show "working_days days = spec_working_days days"
    by (simp add: working_days_def spec_working_days_def)
qed

theorem salaried_even_distribution_witness:
  "pay_type salaried_emp \<noteq> ''Hourly''
   \<and> working_days [(7, True, ''CLOSED'')] = 0
   \<and> employee_entries salaried_emp [(7, True, ''CLOSED'')] (None, None) = []
   \<and> 0 < working_days five_day_week
   \<and> working_days five_day_week = 5
   \<and> map day_hours (filter has_shift_text five_day_week) = [8, 8, 8, 4, 8]
   \<and> length (employee_entries salaried_emp five_day_week (None, None)) = working_days five_day_week
   \<and> map e_cost (employee_entries salaried_emp five_day_week (None, None)) = [140, 140, 140, 140, 140]
   \<and> sum_list (map e_cost (employee_entries salaried_emp five_day_week (None, None))) = 700
   \<and> pay_rate salaried_emp = 700
   \<and> working_days five_day_week = spec_working_days five_day_week"
proof -
  have h: "pay_type salaried_emp \<noteq> ''Hourly''" by code_simp
  have z: "working_days [(7, True, ''CLOSED'')] = 0" by code_simp
  have p: "0 < working_days five_day_week" by code_simp
  have v1: "working_days five_day_week = 5" by code_simp
  have v2: "map day_hours (filter has_shift_text five_day_week) = [8, 8, 8, 4, 8]" by code_simp
  have v3: "map e_cost (employee_entries salaried_emp five_day_week (None, None)) = [140, 140, 140, 140, 140]"
    by code_simp
  have v4: "pay_rate salaried_emp = 700" by code_simp
  have v5: "sum_list (map e_cost (employee_entries salaried_emp five_day_week (None, None))) = 700"
    by code_simp
  have q: "\<forall>dy \<in> set five_day_week. has_shift_text dy \<longrightarrow> day_hours dy \<noteq> 0" by code_simp
  note t0 = salaried_even_distribution [OF h, where days = "[(7, True, ''CLOSED'')]" and ?tm0.0 = "(None, None)"]
  note t1 = t0 [THEN conjunct1, THEN mp, OF z]
  note t5 = salaried_even_distribution [OF h, where days = five_day_week and ?tm0.0 = "(None, None)"]
  note t2 = t5 [THEN conjunct2, THEN conjunct1, THEN mp, OF p]
  note t3 = t2 [THEN conjunct2, THEN conjunct2, THEN conjunct1]
  note t4 = t5 [THEN conjunct2, THEN conjunct2, THEN mp, OF q]
  show ?thesis
    by (intro conjI) (rule h z t1 p v1 v2 v3 t3 v4 v5 t4)+
qed

lemma split_hours_fit: "0 < h \<Longrightarrow> h \<le> b \<Longrightarrow> split_hours b h = (h, 0, b - h)"
  by (simp add: split_hours_def)

lemma split_hours_exceed: "0 \<le> b \<Longrightarrow> b < h \<Longrightarrow> split_hours b h = (b, h - b, 0)"
  by (auto simp: split_hours_def)

lemma assign_hours_dates: "map e_date (assign_hours rate tm b xs) = map fst xs"
  by (induction xs arbitrary: b) (auto split: prod.splits)

lemma assign_hours_shift_hours: "map e_hours (assign_hours rate tm b xs) = map snd xs"
  by (induction xs arbitrary: b) (auto split: prod.splits)

lemma assign_hours_nth:
  "i < length xs \<Longrightarrow>
   assign_hours rate tm b xs ! i =
     \<lparr>e_date = fst (xs ! i), e_start_time = fst tm, e_end_time = snd tm, e_hours = snd (xs ! i),
      e_reg_hours = fst (split_hours (remaining_before b xs i) (snd (xs ! i))),
      e_ot_hours = fst (snd (split_hours (remaining_before b xs i) (snd (xs ! i)))),
      e_cost = fst (split_hours (remaining_before b xs i) (snd (xs ! i))) * rate
               + fst (snd (split_hours (remaining_before b xs i) (snd (xs ! i)))) * rate * (3 / 2),
      e_overtime = (0 < fst (snd (split_hours (remaining_before b xs i) (snd (xs ! i)))))\<rparr>"
proof (induction xs arbitrary: b i)
  case Nil
  then show ?case by simp
next
  case (Cons p xs)
  obtain d h where p: "p = (d, h)" by (cases p) auto
  show ?case
  proof (cases i)
    case 0
    then show ?thesis by (simp add: p split: prod.splits)
  next
    case (Suc k)
    then have "k < length xs" using Cons.prems by simp
    then show ?thesis using Cons.IH [of k] by (simp add: p Suc split: prod.splits)
  qed
qed

lemma remaining_before_Suc:
  "i < length xs \<Longrightarrow>
   remaining_before b xs (Suc i) = snd (snd (split_hours (remaining_before b xs i) (snd (xs ! i))))"
proof (induction xs arbitrary: b i)
  case Nil
  then show ?case by simp
next
  case (Cons p xs)
  obtain d h where p: "p = (d, h)" by (cases p) auto
  show ?case
  proof (cases i)
    case 0
    then show ?thesis by (simp add: p)
  next
    case (Suc k)
    then have "k < length xs" using Cons.prems by simp
    then show ?thesis using Cons.IH [of k] by (simp add: p Suc)
  qed
qed

lemma remaining_before_zero: "remaining_before 0 xs i = 0"
proof (induction xs arbitrary: i)
  case Nil
  then show ?case by (cases i) auto
next
  case (Cons p xs)
  obtain d h where p: "p = (d, h)" by (cases p) auto
  show ?case by (cases i) (auto simp: p Cons split_hours_def)
qed

lemma remaining_before_nonneg:
  "0 \<le> b \<Longrightarrow> \<forall>p \<in> set xs. 0 < snd p \<Longrightarrow> 0 \<le> remaining_before b xs i"
proof (induction xs arbitrary: b i)
  case Nil
  then show ?case by (cases i) auto
next
  case (Cons p xs)
  obtain d h where p: "p = (d, h)" by (cases p) auto
  have "0 \<le> snd (snd (split_hours b h))"
    using Cons.prems(1) by (auto simp: split_hours_def)
  then show ?case using Cons.prems Cons.IH by (cases i) (auto simp: p)
qed

lemma remaining_before_stays_zero:
  "remaining_before b xs i = 0 \<Longrightarrow> i \<le> j \<Longrightarrow> remaining_before b xs j = 0"
proof (induction xs arbitrary: b i j)
  case Nil
  then show ?case by (cases i; cases j) auto
next
  case (Cons p xs)
  obtain d h where p: "p = (d, h)" by (cases p) auto
  show ?case
  proof (cases i)
    case 0
    then have "b = 0" using Cons.prems by simp
    then show ?thesis by (simp add: remaining_before_zero)
  next
    case (Suc k)
    then obtain l where j: "j = Suc l" and kl: "k \<le> l" using Cons.prems(2) by (cases j) auto
    have "remaining_before (snd (snd (split_hours b h))) xs k = 0"
      using Cons.prems(1) by (simp add: p Suc)
    then have "remaining_before (snd (snd (split_hours b h))) xs l = 0"
      using kl by (rule Cons.IH)
    then show ?thesis by (simp add: p j)
  qed
qed

text \<open>
  C4.  When an hourly employee's weekly hours exceed 40, the entries are those of the
  shifts of the first pass, sorted by date, and the regular hours still to be given
  start at 40.  A shift of at most the remaining hours is all regular and lowers the
  remainder by its hours.  A longer shift gets the remainder as regular hours and the
  rest as overtime; from then on the remainder is 0 and every later shift is all
  overtime.  The cost of an entry is its regular hours at the pay rate plus its overtime
  hours at one and a half times the pay rate, and the entry is marked overtime exactly
  when it has overtime hours.
\<close>

theorem overtime_greedy_allocation:
  fixes emp days tm0 weekly_shifts
  defines "shifts \<equiv> sort_key fst weekly_shifts"
      and "es \<equiv> employee_entries emp days tm0"
  assumes "pay_type emp = ''Hourly''"
      and "first_pass days (0, [], tm0) = (weekly_hours, weekly_shifts, tm)"
      and "40 < weekly_hours"
  shows "mset shifts = mset weekly_shifts \<and> sorted (map fst shifts)
       \<and> map e_date es = map fst shifts \<and> map e_hours es = map snd shifts
       \<and> remaining_before 40 shifts 0 = 40
       \<and> (\<forall>i < length es.
            (e_hours (es ! i) \<le> remaining_before 40 shifts i \<longrightarrow>
               e_reg_hours (es ! i) = e_hours (es ! i) \<and> e_ot_hours (es ! i) = 0
               \<and> remaining_before 40 shifts (Suc i) = remaining_before 40 shifts i - e_hours (es ! i))
          \<and> (remaining_before 40 shifts i < e_hours (es ! i) \<longrightarrow>
               e_reg_hours (es ! i) = remaining_before 40 shifts i
               \<and> e_ot_hours (es ! i) = e_hours (es ! i) - remaining_before 40 shifts i
               \<and> (\<forall>j. i < j \<longrightarrow> remaining_before 40 shifts j = 0)
               \<and> (\<forall>j. i < j \<and> j < length es \<longrightarrow>
                     e_reg_hours (es ! j) = 0 \<and> e_ot_hours (es ! j) = e_hours (es ! j)))
          \<and> e_cost (es ! i) = e_reg_hours (es ! i) * pay_rate emp + e_ot_hours (es ! i) * pay_rate emp * (3 / 2)
          \<and> e_overtime (es ! i) = (0 < e_ot_hours (es ! i)))"
proof -
  have fp: "weekly_hours = sum_list (map day_hours (filter worked days))"
       "weekly_shifts = map (\<lambda>dy. (fst dy, day_hours dy)) (filter worked days)"
    using assms(4) by (simp_all add: first_pass_eq)
  have big: "40 < sum_list (map day_hours (filter worked days))"
    using assms(5) fp(1) by simp
  obtain tm' where es_eq: "es = assign_hours (pay_rate emp) tm' 40 shifts"
    using assms(3) big unfolding es_def shifts_def fp(2) by (simp add: hourly_entries_cases)
  have pos: "\<forall>p \<in> set shifts. 0 < snd p"
    unfolding shifts_def fp(2) by (rule weekly_shifts_positive)
  have len: "length es = length shifts"
    by (simp add: es_eq assign_hours_length)
  have nonneg: "0 \<le> remaining_before 40 shifts i" for i
    using pos by (intro remaining_before_nonneg) auto
  have entry: "e_hours (es ! i) = snd (shifts ! i)
      \<and> e_reg_hours (es ! i) = fst (split_hours (remaining_before 40 shifts i) (snd (shifts ! i)))
      \<and> e_ot_hours (es ! i) = fst (snd (split_hours (remaining_before 40 shifts i) (snd (shifts ! i))))
      \<and> e_cost (es ! i) = e_reg_hours (es ! i) * pay_rate emp + e_ot_hours (es ! i) * pay_rate emp * (3 / 2)
      \<and> e_overtime (es ! i) = (0 < e_ot_hours (es ! i))" if "i < length shifts" for i
    using that by (simp add: es_eq assign_hours_nth)
  have hpos: "0 < snd (shifts ! i)" if "i < length shifts" for i
    using pos that by (metis nth_mem)
  have step: "
            (e_hours (es ! i) \<le> remaining_before 40 shifts i \<longrightarrow>
               e_reg_hours (es ! i) = e_hours (es ! i) \<and> e_ot_hours (es ! i) = 0
               \<and> remaining_before 40 shifts (Suc i) = remaining_before 40 shifts i - e_hours (es ! i))
          \<and> (remaining_before 40 shifts i < e_hours (es ! i) \<longrightarrow>
               e_reg_hours (es ! i) = remaining_before 40 shifts i
               \<and> e_ot_hours (es ! i) = e_hours (es ! i) - remaining_before 40 shifts i
               \<and> (\<forall>j. i < j \<longrightarrow> remaining_before 40 shifts j = 0)
               \<and> (\<forall>j. i < j \<and> j < length es \<longrightarrow>
                     e_reg_hours (es ! j) = 0 \<and> e_ot_hours (es ! j) = e_hours (es ! j)))
          \<and> e_cost (es ! i) = e_reg_hours (es ! i) * pay_rate emp + e_ot_hours (es ! i) * pay_rate emp * (3 / 2)
          \<and> e_overtime (es ! i) = (0 < e_ot_hours (es ! i))" if i: "i < length es" for i
  proof (intro conjI impI)
    have il: "i < length shifts" using i len by simp
    note e = entry [OF il]
    show "e_cost (es ! i) = e_reg_hours (es ! i) * pay_rate emp + e_ot_hours (es ! i) * pay_rate emp * (3 / 2)"
      using e by simp
    show "e_overtime (es ! i) = (0 < e_ot_hours (es ! i))"
      using e by simp
    {
      assume fit: "e_hours (es ! i) \<le> remaining_before 40 shifts i"
      then have sp: "split_hours (remaining_before 40 shifts i) (snd (shifts ! i))
                 = (snd (shifts ! i), 0, remaining_before 40 shifts i - snd (shifts ! i))"
        using e hpos [OF il] by (intro split_hours_fit) auto
      show "e_reg_hours (es ! i) = e_hours (es ! i)" using e sp by simp
      show "e_ot_hours (es ! i) = 0" using e sp by simp
      show "remaining_before 40 shifts (Suc i) = remaining_before 40 shifts i - e_hours (es ! i)"
        using e sp il by (simp add: remaining_before_Suc)
    }
    {
      assume ex: "remaining_before 40 shifts i < e_hours (es ! i)"
      then have sp: "split_hours (remaining_before 40 shifts i) (snd (shifts ! i))
                 = (remaining_before 40 shifts i, snd (shifts ! i) - remaining_before 40 shifts i, 0)"
        using e nonneg [of i] by (intro split_hours_exceed) auto
      show "e_reg_hours (es ! i) = remaining_before 40 shifts i" using e sp by simp
      show "e_ot_hours (es ! i) = e_hours (es ! i) - remaining_before 40 shifts i" using e sp by simp
      have z: "remaining_before 40 shifts (Suc i) = 0"
        using sp il by (simp add: remaining_before_Suc)
      have later: "remaining_before 40 shifts j = 0" if "i < j" for j
        using z that by (intro remaining_before_stays_zero [of 40 shifts "Suc i" j]) auto
      show "\<forall>j. i < j \<longrightarrow> remaining_before 40 shifts j = 0"
        using later by blast
      show "\<forall>j. i < j \<and> j < length es \<longrightarrow>
                     e_reg_hours (es ! j) = 0 \<and> e_ot_hours (es ! j) = e_hours (es ! j)"
      proof (intro allI impI)
        fix j assume j: "i < j \<and> j < length es"
        then have jl: "j < length shifts" using len by simp
        have "split_hours (remaining_before 40 shifts j) (snd (shifts ! j)) = (0, snd (shifts ! j), 0)"
          using later [of j] j by (simp add: split_hours_def)
        then show "e_reg_hours (es ! j) = 0 \<and> e_ot_hours (es ! j) = e_hours (es ! j)"
          using entry [OF jl] by simp
      qed
    }
  qed
  have "mset shifts = mset weekly_shifts" by (simp add: shifts_def)
  moreover have "sorted (map fst shifts)" by (simp add: shifts_def)
  moreover have "map e_date es = map fst shifts" by (simp add: es_eq assign_hours_dates)
  moreover have "map e_hours es = map snd shifts" by (simp add: es_eq assign_hours_shift_hours)
  moreover have "remaining_before 40 shifts 0 = 40" by simp
  ultimately show ?thesis using step by blast
qed

theorem overtime_greedy_allocation_witness:
  "pay_type hourly_emp = ''Hourly''
   \<and> first_pass split_week (0, [], (None, None))
       = (54, [(1, 12), (2, 12), (3, 12), (4, 12), (5, 6)], (Some ''09:00:00'', Some ''15:00:00''))
   \<and> (40 :: rat) < 54
   \<and> 0 < length (employee_entries hourly_emp split_week (None, None))
   \<and> e_hours (employee_entries hourly_emp split_week (None, None) ! 0)
       \<le> remaining_before 40 (sort_key fst [(1, 12), (2, 12), (3, 12), (4, 12), (5, 6)]) 0
   \<and> e_reg_hours (employee_entries hourly_emp split_week (None, None) ! 0)
       = e_hours (employee_entries hourly_emp split_week (None, None) ! 0)
   \<and> e_ot_hours (employee_entries hourly_emp split_week (None, None) ! 0) = 0
   \<and> remaining_before 40 (sort_key fst [(1, 12), (2, 12), (3, 12), (4, 12), (5, 6)]) (Suc 0)
       = remaining_before 40 (sort_key fst [(1, 12), (2, 12), (3, 12), (4, 12), (5, 6)]) 0
         - e_hours (employee_entries hourly_emp split_week (None, None) ! 0)
   \<and> 3 < length (employee_entries hourly_emp split_week (None, None))
   \<and> remaining_before 40 (sort_key fst [(1, 12), (2, 12), (3, 12), (4, 12), (5, 6)]) 3
       < e_hours (employee_entries hourly_emp split_week (None, None) ! 3)
   \<and> e_reg_hours (employee_entries hourly_emp split_week (None, None) ! 3)
       = remaining_before 40 (sort_key fst [(1, 12), (2, 12), (3, 12), (4, 12), (5, 6)]) 3
   \<and> e_ot_hours (employee_entries hourly_emp split_week (None, None) ! 3)
       = e_hours (employee_entries hourly_emp split_week (None, None) ! 3)
         - remaining_before 40 (sort_key fst [(1, 12), (2, 12), (3, 12), (4, 12), (5, 6)]) 3
   \<and> remaining_before 40 (sort_key fst [(1, 12), (2, 12), (3, 12), (4, 12), (5, 6)]) 4 = 0
   \<and> 4 < length (employee_entries hourly_emp split_week (None, None))
   \<and> e_reg_hours (employee_entries hourly_emp split_week (None, None) ! 4) = 0
   \<and> e_ot_hours (employee_entries hourly_emp split_week (None, None) ! 4)
       = e_hours (employee_entries hourly_emp split_week (None, None) ! 4)
   \<and> e_cost (employee_entries hourly_emp split_week (None, None) ! 3)
       = e_reg_hours (employee_entries hourly_emp split_week (None, None) ! 3) * pay_rate hourly_emp
         + e_ot_hours (employee_entries hourly_emp split_week (None, None) ! 3) * pay_rate hourly_emp * (3 / 2)
   \<and> e_overtime (employee_entries hourly_emp split_week (None, None) ! 3)
       = (0 < e_ot_hours (employee_entries hourly_emp split_week (None, None) ! 3))
   \<and> map e_reg_hours (employee_entries hourly_emp split_week (None, None)) = [12, 12, 12, 4, 0]
   \<and> map e_ot_hours (employee_entries hourly_emp split_week (None, None)) = [0, 0, 0, 8, 6]
   \<and> map e_cost (employee_entries hourly_emp split_week (None, None)) = [120, 120, 120, 160, 90]
   \<and> map e_overtime (employee_entries hourly_emp split_week (None, None)) = [False, False, False, True, True]"
proof -
  have h1: "pay_type hourly_emp = ''Hourly''"
    by (simp add: hourly_emp_def)
  have h2: "first_pass split_week (0, [], (None, None))
       = (54, [(1, 12), (2, 12), (3, 12), (4, 12), (5, 6)], (Some ''09:00:00'', Some ''15:00:00''))"
    by code_simp
  have h3: "(40 :: rat) < 54" by simp
  have l0: "0 < length (employee_entries hourly_emp split_week (None, None))" by code_simp
  have l3: "3 < length (employee_entries hourly_emp split_week (None, None))" by code_simp
  have l4: "4 < length (employee_entries hourly_emp split_week (None, None))" by code_simp
  have lt: "(3 :: nat) < 4" by simp
  have fit0: "e_hours (employee_entries hourly_emp split_week (None, None) ! 0)
       \<le> remaining_before 40 (sort_key fst [(1, 12), (2, 12), (3, 12), (4, 12), (5, 6)]) 0"
    by code_simp
  have ex3: "remaining_before 40 (sort_key fst [(1, 12), (2, 12), (3, 12), (4, 12), (5, 6)]) 3
       < e_hours (employee_entries hourly_emp split_week (None, None) ! 3)"
    by code_simp
  have v1: "map e_reg_hours (employee_entries hourly_emp split_week (None, None)) = [12, 12, 12, 4, 0]"
    by code_simp
  have v2: "map e_ot_hours (employee_entries hourly_emp split_week (None, None)) = [0, 0, 0, 8, 6]"
    by code_simp
  have v3: "map e_cost (employee_entries hourly_emp split_week (None, None)) = [120, 120, 120, 160, 90]"
    by code_simp
  have v4: "map e_overtime (employee_entries hourly_emp split_week (None, None)) = [False, False, False, True, True]"
    by code_simp
  note c2 = conjunct2
  note T = overtime_greedy_allocation [OF h1 h2 h3]
  note A = T [THEN c2, THEN c2, THEN c2, THEN c2, THEN c2]
  note A0 = A [THEN spec, THEN mp, OF l0]
  note F0 = A0 [THEN conjunct1, THEN mp, OF fit0]
  note A3 = A [THEN spec, THEN mp, OF l3]
  note X3 = A3 [THEN c2, THEN conjunct1, THEN mp, OF ex3]
  note X3c = X3 [THEN c2, THEN c2, THEN conjunct1, THEN spec, THEN mp, OF lt]
  note X3d = X3 [THEN c2, THEN c2, THEN c2, THEN spec, THEN mp, OF conjI [OF lt l4]]
  note C3 = A3 [THEN c2, THEN c2]
  show ?thesis
    by (intro conjI)
       (rule h1 h2 h3 l0 l3 l4 fit0 ex3 v1 v2 v3 v4
             F0 [THEN conjunct1] F0 [THEN c2, THEN conjunct1] F0 [THEN c2, THEN c2]
             X3 [THEN conjunct1] X3 [THEN c2, THEN conjunct1] X3c
             X3d [THEN conjunct1] X3d [THEN c2] C3 [THEN conjunct1] C3 [THEN c2])+
qed

section \<open>Properties of the storage collaborator and of a whole run\<close>

subsection \<open>Tables\<close>

lemma find_key_mem: "find (\<lambda>r. fst (snd r) = k) rs = Some r \<Longrightarrow> r \<in> set rs \<and> fst (snd r) = k"
  by (induction rs) (auto split: if_splits)

lemma upsert_rows_update:
  "find (\<lambda>r. fst (snd r) = k) (rows t) = Some r \<Longrightarrow>
   upsert k v t = t\<lparr>rows := map (\<lambda>x. if fst x = fst r then (fst x, fst (snd x), v) else x) (rows t)\<rparr>"
  by (simp add: upsert_def select_id_def update_where_id_def)

lemma upsert_rows_insert:
  "find (\<lambda>r. fst (snd r) = k) (rows t) = None \<Longrightarrow>
   upsert k v t = t\<lparr>rows := rows t @ [(next_id t, k, v)], next_id := Suc (next_id t)\<rparr>"
  by (simp add: upsert_def select_id_def insert_row_def)

lemma update_keeps_ids:
  "map fst (map (\<lambda>x. if fst x = i then (fst x, fst (snd x), v) else x) rs) = map fst rs"
  by (induction rs) auto

lemma update_keeps_bound:
  "list_all (\<lambda>r. fst r < n) rs \<Longrightarrow>
   list_all (\<lambda>r. fst r < n) (map (\<lambda>x. if fst x = i then (fst x, fst (snd x), v) else x) rs)"
  by (induction rs) auto

lemma find_key_snoc_other:
  "k' \<noteq> k \<Longrightarrow>
   find (\<lambda>r. fst (snd r) = k') (rs @ [(n, k, v)]) = find (\<lambda>r. fst (snd r) = k') rs"
  by (induction rs) auto

lemma wf_table_upsert: "wf_table t \<Longrightarrow> wf_table (upsert k v t)"
proof (cases "find (\<lambda>r. fst (snd r) = k) (rows t)")
  case None
  assume wf: "wf_table t"
  then have "next_id t \<notin> fst ` set (rows t)"
    by (auto simp: wf_table_def list_all_iff)
  then show ?thesis using wf None
    by (auto simp: upsert_rows_insert wf_table_def list_all_iff less_Suc_eq)
next
  case (Some r)
  assume wf: "wf_table t"
  show ?thesis using wf Some
    by (simp add: upsert_rows_update wf_table_def update_keeps_ids update_keeps_bound del: map_map)
qed

lemma lookup_upsert_other:
  assumes wf: "wf_table t" and ne: "k' \<noteq> k"
  shows "lookup_row k' (upsert k v t) = lookup_row k' t"
proof (cases "find (\<lambda>r. fst (snd r) = k) (rows t)")
  case None
  show ?thesis using None ne by (simp add: upsert_rows_insert lookup_row_def find_key_snoc_other)
next
  case (Some r)
  note r = find_key_mem [OF Some]
  show ?thesis
  proof (cases "find (\<lambda>x. fst (snd x) = k') (rows t)")
    case None
    then show ?thesis using Some
      by (simp add: upsert_rows_update lookup_row_def find_key_update_where_id)
  next
    case s: (Some r')
    note r' = find_key_mem [OF s]
    have "r' \<noteq> r" using r r' ne by auto
    moreover have "distinct (map fst (rows t))" using wf by (simp add: wf_table_def)
    ultimately have "fst r' \<noteq> fst r" using r r' by (metis distinct_map inj_onD)
    then show ?thesis using Some s
      by (simp add: upsert_rows_update lookup_row_def find_key_update_where_id)
  qed
qed

subsection \<open>Saving the daily totals\<close>

lemma save_daily_totals_other:
  "wf_table (labor_costs d) \<Longrightarrow> dt \<notin> fst ` set dl \<Longrightarrow>
   lookup_row dt (labor_costs (save_daily_totals pct dl d)) = lookup_row dt (labor_costs d)"
proof (induction dl arbitrary: d)
  case Nil
  then show ?case by simp
next
  case (Cons p dl)
  obtain k t where p: "p = (k, t)" by (cases p) auto
  have ne: "dt \<noteq> k" and rest: "dt \<notin> fst ` set dl" using Cons.prems(2) p by auto
  show ?case
  proof (cases "total_cost t = 0")
    case True
    then show ?thesis using Cons.IH [OF Cons.prems(1) rest] by (simp add: p)
  next
    case False
    let ?d' = "save_labor_cost k (total_hours t) (regular_hours t) (overtime_hours t) (total_cost t)
                 (Some pct) (Some (required_sales_of (total_cost t) pct)) None d"
    have wf': "wf_table (labor_costs ?d')"
      using Cons.prems(1) by (simp add: save_labor_cost_def wf_table_upsert)
    have "lookup_row dt (labor_costs ?d') = lookup_row dt (labor_costs d)"
      using Cons.prems(1) ne by (simp add: save_labor_cost_def lookup_upsert_other)
    then show ?thesis using Cons.IH [OF wf' rest] False by (simp add: p)
  qed
qed

lemma save_daily_totals_lookup:
  "wf_table (labor_costs d) \<Longrightarrow> distinct (map fst dl) \<Longrightarrow> (dt, t) \<in> set dl \<Longrightarrow> total_cost t \<noteq> 0 \<Longrightarrow>
   lookup_row dt (labor_costs (save_daily_totals pct dl d)) =
     Some \<lparr>l_total_hours = total_hours t, l_regular_hours = regular_hours t,
           l_overtime_hours = overtime_hours t, l_total_cost = total_cost t,
           l_labor_goal_percentage = Some pct,
           l_required_sales = Some (required_sales_of (total_cost t) pct), l_actual_sales = None\<rparr>"
proof (induction dl arbitrary: d)
  case Nil
  then show ?case by simp
next
  case (Cons p dl)
  obtain k u where p: "p = (k, u)" by (cases p) auto
  let ?d' = "save_labor_cost k (total_hours u) (regular_hours u) (overtime_hours u) (total_cost u)
               (Some pct) (Some (required_sales_of (total_cost u) pct)) None d"
  have wf': "wf_table (labor_costs ?d')"
    using Cons.prems(1) by (simp add: save_labor_cost_def wf_table_upsert)
  have dist: "distinct (map fst dl)" and fresh: "k \<notin> fst ` set dl"
    using Cons.prems(2) p by auto
  show ?case
  proof (cases "(dt, t) = (k, u)")
    case True
    then have "lookup_row dt (labor_costs (save_daily_totals pct dl ?d')) = lookup_row dt (labor_costs ?d')"
      using wf' fresh by (intro save_daily_totals_other) auto
    then show ?thesis using True Cons.prems(4)
      by (simp add: p save_labor_cost_def lookup_upsert_same)
  next
    case False
    then have mem: "(dt, t) \<in> set dl" using Cons.prems(3) p by auto
    show ?thesis
    proof (cases "total_cost u = 0")
      case True
      then show ?thesis using Cons.IH [OF Cons.prems(1) dist mem Cons.prems(4)] by (simp add: p)
    next
      case nz: False
      then show ?thesis using Cons.IH [OF wf' dist mem Cons.prems(4)] by (simp add: p)
    qed
  qed
qed

subsection \<open>The dictionary of daily totals\<close>

lemma dict_set_keys: "set (map fst (dict_set k v al)) = insert k (set (map fst al))"
  by (induction al) auto

lemma dict_set_distinct: "distinct (map fst al) \<Longrightarrow> distinct (map fst (dict_set k v al))"
proof (induction al)
  case Nil
  then show ?case by simp
next
  case (Cons p al)
  have "set (map fst (dict_set k v al)) = insert k (set (map fst al))" by (rule dict_set_keys)
  then show ?case using Cons by auto
qed

lemma init_daily_labor_keys:
  "distinct (map fst acc) \<Longrightarrow>
   distinct (map fst (foldl (\<lambda>dl date_obj. dict_set date_obj zero_daily dl) acc dates))"
proof (induction dates arbitrary: acc)
  case Nil
  then show ?case by simp
next
  case (Cons d dates)
  have "distinct (map fst (dict_set d zero_daily acc))"
    using Cons.prems by (rule dict_set_distinct)
  then show ?case using Cons.IH by simp
qed

lemma init_daily_labor_distinct: "distinct (map fst (init_daily_labor dates))"
  unfolding init_daily_labor_def using init_daily_labor_keys [of "[]" dates] by simp

lemma dict_map_entry_keys: "map fst (dict_map_entry k f al) = map fst al"
  by (induction al) auto

subsection \<open>One entry, one employee, all rows\<close>

lemma post_entry_keys: "map fst (daily_labor (post_entry n e st)) = map fst (daily_labor st)"
  by (simp add: post_entry_def dict_map_entry_keys)

lemma post_entry_store:
  "labor_costs (store (post_entry n e st)) = labor_costs (store st)
   \<and> employees (store (post_entry n e st)) = employees (store st)
   \<and> last_times (post_entry n e st) = last_times st"
  by (simp add: post_entry_def save_schedule_def)

lemma post_entries_keys:
  "map fst (daily_labor (foldl (\<lambda>s e. post_entry n e s) st es)) = map fst (daily_labor st)"
  by (induction es arbitrary: st) (auto simp: post_entry_keys)

lemma post_entries_store:
  "labor_costs (store (foldl (\<lambda>s e. post_entry n e s) st es)) = labor_costs (store st)
   \<and> employees (store (foldl (\<lambda>s e. post_entry n e s) st es)) = employees (store st)"
  by (induction es arbitrary: st) (auto simp: post_entry_store)

lemma process_employee_inv:
  "map fst (daily_labor (process_employee emp row days st)) = map fst (daily_labor st)
   \<and> labor_costs (store (process_employee emp row days st)) = labor_costs (store st)
   \<and> employees (store (process_employee emp row days st)) = employees (store st)"
  by (simp add: process_employee_def post_entries_keys post_entries_store)

lemma process_rows_inv:
  "map fst (daily_labor (fst (process_rows dates date_closed df st))) = map fst (daily_labor st)
   \<and> labor_costs (store (fst (process_rows dates date_closed df st))) = labor_costs (store st)
   \<and> employees (store (fst (process_rows dates date_closed df st))) = employees (store st)"
  by (induction df arbitrary: st) (auto simp: process_employee_inv split: option.splits)

lemma calculate_success:
  "snd (process_rows dates date_closed df (initial_state dates d)) = None \<Longrightarrow>
   fst (calculate_labor_costs df dates date_closed stg d) =
     save_daily_totals (labor_goal_percentage stg)
       (daily_labor (fst (process_rows dates date_closed df (initial_state dates d))))
       (store (fst (process_rows dates date_closed df (initial_state dates d))))"
  by (cases "process_rows dates date_closed df (initial_state dates d)")
     (auto simp: calculate_labor_costs_def)

lemma saved_daily_total:
  assumes "wf_table (labor_costs d)"
      and "snd (process_rows dates date_closed df (initial_state dates d)) = None"
      and "(dt, t) \<in> set (daily_labor (fst (process_rows dates date_closed df (initial_state dates d))))"
      and "total_cost t \<noteq> 0"
  shows "lookup_row dt (labor_costs (fst (calculate_labor_costs df dates date_closed stg d))) =
     Some \<lparr>l_total_hours = total_hours t, l_regular_hours = regular_hours t,
           l_overtime_hours = overtime_hours t, l_total_cost = total_cost t,
           l_labor_goal_percentage = Some (labor_goal_percentage stg),
           l_required_sales = Some (required_sales_of (total_cost t) (labor_goal_percentage stg)),
           l_actual_sales = None\<rparr>"
proof -
  let ?st = "fst (process_rows dates date_closed df (initial_state dates d))"
  have inv: "map fst (daily_labor ?st) = map fst (daily_labor (initial_state dates d))"
            "labor_costs (store ?st) = labor_costs (store (initial_state dates d))"
    using process_rows_inv [of dates date_closed df "initial_state dates d"] by simp_all
  have dist: "distinct (map fst (daily_labor ?st))"
    unfolding inv(1) by (simp add: initial_state_def init_daily_labor_distinct)
  have wf: "wf_table (labor_costs (store ?st))"
    unfolding inv(2) using assms(1) by (simp add: initial_state_def)
  show ?thesis
    unfolding calculate_success [OF assms(2)]
    by (rule save_daily_totals_lookup [OF wf dist assms(3) assms(4)])
qed

text \<open>
  C7.  After a run that saved the daily totals, the row of every date whose total cost
  is not zero holds that cost and, as required sales, the cost divided by
  \<open>labor_goal_percentage / 100\<close> when the percentage is positive and 0 otherwise: a
  cost of 1000 gives 4000 at 25 percent and 0 at 0 percent or below.
\<close>

theorem required_sales_saved:
  assumes "wf_table (labor_costs d)"
      and "snd (process_rows dates date_closed df (initial_state dates d)) = None"
      and "(dt, t) \<in> set (daily_labor (fst (process_rows dates date_closed df (initial_state dates d))))"
      and "total_cost t \<noteq> 0"
  shows "map_option l_required_sales
           (lookup_row dt (labor_costs (fst (calculate_labor_costs df dates date_closed stg d))))
         = Some (Some (if 0 < labor_goal_percentage stg
                       then total_cost t / (labor_goal_percentage stg / 100) else 0))
       \<and> map_option l_total_cost
           (lookup_row dt (labor_costs (fst (calculate_labor_costs df dates date_closed stg d))))
         = Some (total_cost t)
       \<and> (labor_goal_percentage stg \<le> 0 \<longrightarrow>
            map_option l_required_sales
              (lookup_row dt (labor_costs (fst (calculate_labor_costs df dates date_closed stg d))))
            = Some (Some 0))
       \<and> required_sales_of 1000 25 = 4000 \<and> required_sales_of 1000 0 = 0
       \<and> required_sales_of 1000 (- 5) = 0"
proof -
  note row = saved_daily_total [OF assms, of stg]
  show ?thesis by (simp add: row required_sales_of_def)
qed

theorem required_sales_saved_witness:
  "wf_table (labor_costs sales_db)
   \<and> snd (process_rows [1] [False] sales_frame (initial_state [1] sales_db)) = None
   \<and> (1, \<lparr>total_hours = 8, regular_hours = 8, overtime_hours = 0, total_cost = 1000\<rparr>)
       \<in> set (daily_labor (fst (process_rows [1] [False] sales_frame (initial_state [1] sales_db))))
   \<and> total_cost \<lparr>total_hours = 8, regular_hours = 8, overtime_hours = 0, total_cost = 1000\<rparr> \<noteq> 0
   \<and> map_option l_total_cost
        (lookup_row 1 (labor_costs (fst (calculate_labor_costs sales_frame [1] [False]
                                          \<lparr>labor_goal_percentage = 25\<rparr> sales_db))))
      = Some (total_cost \<lparr>total_hours = 8, regular_hours = 8, overtime_hours = 0, total_cost = 1000\<rparr>)
   \<and> map_option l_required_sales
        (lookup_row 1 (labor_costs (fst (calculate_labor_costs sales_frame [1] [False]
                                          \<lparr>labor_goal_percentage = 25\<rparr> sales_db))))
      = Some (Some 4000)
   \<and> labor_goal_percentage \<lparr>labor_goal_percentage = 0\<rparr> \<le> 0
   \<and> map_option l_required_sales
        (lookup_row 1 (labor_costs (fst (calculate_labor_costs sales_frame [1] [False]
                                          \<lparr>labor_goal_percentage = 0\<rparr> sales_db))))
      = Some (Some 0)"
proof -
  have h1: "wf_table (labor_costs sales_db)" by code_simp
  have h2: "snd (process_rows [1] [False] sales_frame (initial_state [1] sales_db)) = None"
    by code_simp
  have h3: "(1, \<lparr>total_hours = 8, regular_hours = 8, overtime_hours = 0, total_cost = 1000\<rparr>)
       \<in> set (daily_labor (fst (process_rows [1] [False] sales_frame (initial_state [1] sales_db))))"
    by code_simp
  have h4: "total_cost \<lparr>total_hours = 8, regular_hours = 8, overtime_hours = 0, total_cost = 1000\<rparr> \<noteq> 0"
    by simp
  have z: "labor_goal_percentage \<lparr>labor_goal_percentage = 0\<rparr> \<le> 0" by simp
  note c2 = conjunct2
  note T = required_sales_saved [OF h1 h2 h3 h4, where stg = "\<lparr>labor_goal_percentage = 25\<rparr>"]
  note Z = required_sales_saved [OF h1 h2 h3 h4, where stg = "\<lparr>labor_goal_percentage = 0\<rparr>",
             THEN c2, THEN c2, THEN conjunct1, THEN mp, OF z]
  have v: "map_option l_required_sales
        (lookup_row 1 (labor_costs (fst (calculate_labor_costs sales_frame [1] [False]
                                          \<lparr>labor_goal_percentage = 25\<rparr> sales_db))))
      = Some (Some 4000)"
    using T [THEN conjunct1] by simp
  show ?thesis
    by (intro conjI) (rule h1 h2 h3 h4 z Z v T [THEN c2, THEN conjunct1])+
qed

subsection \<open>Writing a list of rows twice\<close>

lemma select_id_update: "select_id k (update_where_id i v t) = select_id k t"
proof (cases "find (\<lambda>r. fst (snd r) = k) (rows t)")
  case None
  then show ?thesis by (simp add: select_id_def update_where_id_def find_key_update_where_id)
next
  case (Some r)
  then show ?thesis by (simp add: select_id_def update_where_id_def find_key_update_where_id)
qed

lemma select_id_insert_same:
  "select_id k t = None \<Longrightarrow> select_id k (insert_row k v t) = Some (next_id t)"
  by (simp add: select_id_def insert_row_def find_append_none)

lemma select_id_insert_other: "k' \<noteq> k \<Longrightarrow> select_id k' (insert_row k v t) = select_id k' t"
  by (simp add: select_id_def insert_row_def find_key_snoc_other)

lemma select_id_bound: "wf_table t \<Longrightarrow> select_id k t = Some i \<Longrightarrow> i < next_id t"
  by (auto simp: select_id_def wf_table_def list_all_iff dest!: find_key_mem)

lemma select_id_distinct:
  assumes "wf_table t" "select_id k t = Some i" "select_id k' t = Some i'" "k \<noteq> k'"
  shows "i \<noteq> i'"
proof -
  obtain r where r: "find (\<lambda>r. fst (snd r) = k) (rows t) = Some r" "fst r = i"
    using assms(2) by (auto simp: select_id_def)
  obtain r' where r': "find (\<lambda>r. fst (snd r) = k') (rows t) = Some r'" "fst r' = i'"
    using assms(3) by (auto simp: select_id_def)
  note m = find_key_mem [OF r(1)] and m' = find_key_mem [OF r'(1)]
  have "r \<noteq> r'" using m m' assms(4) by auto
  moreover have "distinct (map fst (rows t))" using assms(1) by (simp add: wf_table_def)
  ultimately have "fst r \<noteq> fst r'" using m m' by (metis distinct_map inj_onD)
  then show ?thesis using r r' by simp
qed

lemma update_twice: "update_where_id i v (update_where_id i v' t) = update_where_id i v t"
  by (simp add: update_where_id_def comp_def if_distrib cong: if_cong)

lemma update_commute:
  "i \<noteq> i' \<Longrightarrow>
   update_where_id i v (update_where_id i' v' t) = update_where_id i' v' (update_where_id i v t)"
  by (auto simp: update_where_id_def)

lemma update_absent_id:
  "\<forall>r \<in> set rs. fst r \<noteq> n \<Longrightarrow> map (\<lambda>r. if fst r = n then (fst r, fst (snd r), v) else r) rs = rs"
  by (induction rs) auto

lemma update_fresh_id:
  "list_all (\<lambda>r. fst r < n) rs \<Longrightarrow> map (\<lambda>r. if fst r = n then (fst r, fst (snd r), v) else r) rs = rs"
  for n :: nat
  by (rule update_absent_id) (auto simp: list_all_iff)

lemma update_inserted:
  "wf_table t \<Longrightarrow> update_where_id (next_id t) v (insert_row k v' t) = insert_row k v t"
  by (simp add: update_where_id_def insert_row_def wf_table_def update_fresh_id)

lemma update_insert_commute:
  "i < next_id t \<Longrightarrow>
   update_where_id i v (insert_row k v' t) = insert_row k v' (update_where_id i v t)"
  by (simp add: update_where_id_def insert_row_def)

lemma upsert_twice:
  assumes "wf_table t"
  shows "upsert k v (upsert k v' t) = upsert k v t"
proof (cases "select_id k t")
  case None
  then show ?thesis using assms
    by (simp add: upsert_def select_id_insert_same update_inserted)
next
  case (Some i)
  then show ?thesis
    by (simp add: upsert_def select_id_update update_twice)
qed

lemma upsert_commute:
  assumes wf: "wf_table t" and ne: "k \<noteq> k'" and present: "select_id k' t = Some i'"
  shows "upsert k v (upsert k' v' t) = upsert k' v' (upsert k v t)"
proof (cases "select_id k t")
  case None
  have b: "i' < next_id t" using wf present by (rule select_id_bound)
  have "upsert k v (upsert k' v' t) = insert_row k v (update_where_id i' v' t)"
    using None present by (simp add: upsert_def select_id_update)
  moreover have "upsert k' v' (upsert k v t) = update_where_id i' v' (insert_row k v t)"
    using None present ne by (simp add: upsert_def select_id_insert_other)
  ultimately show ?thesis using b by (simp add: update_insert_commute)
next
  case (Some i)
  have "i \<noteq> i'" using wf Some present ne by (rule select_id_distinct)
  then show ?thesis using Some present
    by (simp add: upsert_def select_id_update update_commute)
qed

lemma select_id_upsert_same: "\<exists>i. select_id k (upsert k v t) = Some i"
  by (cases "select_id k t") (auto simp: upsert_def select_id_update select_id_insert_same)

lemma select_id_upsert_present:
  "\<exists>i. select_id k' t = Some i \<Longrightarrow> \<exists>i. select_id k' (upsert k v t) = Some i"
  by (cases "select_id k t"; cases "k' = k")
     (auto simp: upsert_def select_id_update select_id_insert_same select_id_insert_other)

lemma apply_writes_Cons: "apply_writes (w # ws) t = apply_writes ws (upsert (fst w) (snd w) t)"
  by (simp add: apply_writes_def)

lemma apply_writes_append: "apply_writes (ws @ ws') t = apply_writes ws' (apply_writes ws t)"
  by (simp add: apply_writes_def)

lemma wf_table_apply_writes: "wf_table t \<Longrightarrow> wf_table (apply_writes ws t)"
  by (induction ws arbitrary: t) (auto simp: apply_writes_def wf_table_upsert)

lemma apply_writes_present_kept:
  "\<exists>i. select_id k t = Some i \<Longrightarrow> \<exists>i. select_id k (apply_writes ws t) = Some i"
proof (induction ws arbitrary: t)
  case Nil
  then show ?case by (simp add: apply_writes_def)
next
  case (Cons w ws)
  from Cons.prems have "\<exists>i. select_id k (upsert (fst w) (snd w) t) = Some i"
    by (rule select_id_upsert_present)
  then show ?case unfolding apply_writes_Cons by (rule Cons.IH)
qed

lemma apply_writes_present:
  "k \<in> fst ` set ws \<Longrightarrow> \<exists>i. select_id k (apply_writes ws t) = Some i"
proof (induction ws arbitrary: t)
  case Nil
  then show ?case by simp
next
  case (Cons w ws)
  show ?case
  proof (cases "k = fst w")
    case True
    then have "\<exists>i. select_id k (upsert (fst w) (snd w) t) = Some i"
      using select_id_upsert_same [of "fst w" "snd w" t] by simp
    then show ?thesis unfolding apply_writes_Cons by (rule apply_writes_present_kept)
  next
    case False
    then have "k \<in> fst ` set ws" using Cons.prems by auto
    then show ?thesis unfolding apply_writes_Cons by (rule Cons.IH)
  qed
qed

lemma apply_writes_overwrites:
  "wf_table t \<Longrightarrow> k \<in> fst ` set ws \<Longrightarrow> \<forall>k' \<in> fst ` set ws. \<exists>i. select_id k' t = Some i \<Longrightarrow>
   apply_writes ws (upsert k v t) = apply_writes ws t"
proof (induction ws arbitrary: t)
  case Nil
  then show ?case by simp
next
  case (Cons w ws)
  have wf': "wf_table (upsert (fst w) (snd w) t)" using Cons.prems(1) by (rule wf_table_upsert)
  have pres': "\<forall>k' \<in> fst ` set ws. \<exists>i. select_id k' (upsert (fst w) (snd w) t) = Some i"
  proof
    fix k' assume "k' \<in> fst ` set ws"
    then have "k' \<in> fst ` set (w # ws)" by auto
    then have "\<exists>i. select_id k' t = Some i" using Cons.prems(3) by blast
    then show "\<exists>i. select_id k' (upsert (fst w) (snd w) t) = Some i"
      by (rule select_id_upsert_present)
  qed
  show ?case
  proof (cases "fst w = k")
    case True
    then show ?thesis using Cons.prems(1) by (simp add: apply_writes_Cons upsert_twice)
  next
    case False
    then have mem: "k \<in> fst ` set ws" using Cons.prems(2) by auto
    obtain i' where i': "select_id (fst w) t = Some i'" using Cons.prems(3) by auto
    have "upsert (fst w) (snd w) (upsert k v t) = upsert k v (upsert (fst w) (snd w) t)"
      using upsert_commute [OF Cons.prems(1) _ i', of k v "snd w"] False by simp
    then show ?thesis using Cons.IH [OF wf' mem pres'] by (simp add: apply_writes_Cons)
  qed
qed

lemma apply_writes_passes:
  "wf_table t \<Longrightarrow> k \<notin> fst ` set ws \<Longrightarrow> select_id k t = Some i \<Longrightarrow>
   upsert k v (apply_writes ws t) = apply_writes ws (upsert k v t)"
proof (induction ws arbitrary: t i)
  case Nil
  then show ?case by (simp add: apply_writes_def)
next
  case (Cons w ws)
  have wf': "wf_table (upsert (fst w) (snd w) t)" using Cons.prems(1) by (rule wf_table_upsert)
  have ne: "fst w \<noteq> k" and rest: "k \<notin> fst ` set ws" using Cons.prems(2) by auto
  have "\<exists>j. select_id k (upsert (fst w) (snd w) t) = Some j"
    using Cons.prems(3) by (intro select_id_upsert_present) simp
  then obtain j where j: "select_id k (upsert (fst w) (snd w) t) = Some j" by auto
  have "upsert k v (apply_writes ws (upsert (fst w) (snd w) t))
        = apply_writes ws (upsert k v (upsert (fst w) (snd w) t))"
    using wf' rest j by (rule Cons.IH)
  also have "upsert k v (upsert (fst w) (snd w) t) = upsert (fst w) (snd w) (upsert k v t)"
    using upsert_commute [OF Cons.prems(1) ne Cons.prems(3), of "snd w" v] by simp
  finally show ?case by (simp add: apply_writes_Cons)
qed

lemma apply_writes_twice:
  "wf_table t \<Longrightarrow> apply_writes ws (apply_writes ws t) = apply_writes ws t"
proof (induction ws arbitrary: t)
  case Nil
  then show ?case by (simp add: apply_writes_def)
next
  case (Cons w ws)
  let ?t' = "upsert (fst w) (snd w) t"
  have wf': "wf_table ?t'" using Cons.prems by (rule wf_table_upsert)
  have wf'': "wf_table (apply_writes ws ?t')" using wf' by (rule wf_table_apply_writes)
  have ih: "apply_writes ws (apply_writes ws ?t') = apply_writes ws ?t'"
    using wf' by (rule Cons.IH)
  have "apply_writes ws (upsert (fst w) (snd w) (apply_writes ws ?t')) = apply_writes ws ?t'"
  proof (cases "fst w \<in> fst ` set ws")
    case True
    have "\<forall>k' \<in> fst ` set ws. \<exists>i. select_id k' (apply_writes ws ?t') = Some i"
    proof
      fix k' assume "k' \<in> fst ` set ws"
      then show "\<exists>i. select_id k' (apply_writes ws ?t') = Some i" by (rule apply_writes_present)
    qed
    then have "apply_writes ws (upsert (fst w) (snd w) (apply_writes ws ?t'))
               = apply_writes ws (apply_writes ws ?t')"
      using wf'' True by (intro apply_writes_overwrites) auto
    then show ?thesis using ih by simp
  next
    case False
    obtain i where i: "select_id (fst w) ?t' = Some i"
      using select_id_upsert_same [of "fst w" "snd w" t] by auto
    have "upsert (fst w) (snd w) (apply_writes ws ?t') = apply_writes ws (upsert (fst w) (snd w) ?t')"
      using wf' False i by (rule apply_writes_passes)
    also have "upsert (fst w) (snd w) ?t' = ?t'"
      using Cons.prems by (rule upsert_twice)
    finally show ?thesis using ih by simp
  qed
  then show ?case by (simp add: apply_writes_Cons)
qed

subsection \<open>A run as two lists of writes\<close>

lemma post_entry_schedules:
  "schedules (store (post_entry n e st))
     = upsert (fst (entry_write n e)) (snd (entry_write n e)) (schedules (store st))"
  by (simp add: post_entry_def save_schedule_def entry_write_def)

lemma post_entries_schedules:
  "schedules (store (foldl (\<lambda>s e. post_entry n e s) st es))
     = apply_writes (map (entry_write n) es) (schedules (store st))"
  by (induction es arbitrary: st) (auto simp: apply_writes_def post_entry_schedules)

lemma post_entry_daily_labor:
  "daily_labor st = daily_labor st' \<Longrightarrow>
   daily_labor (post_entry n e st) = daily_labor (post_entry n e st')"
  by (simp add: post_entry_def)

lemma post_entries_daily_labor:
  "daily_labor st = daily_labor st' \<Longrightarrow>
   daily_labor (foldl (\<lambda>s e. post_entry n e s) st es)
     = daily_labor (foldl (\<lambda>s e. post_entry n e s) st' es)"
proof (induction es arbitrary: st st')
  case Nil
  then show ?case by simp
next
  case (Cons e es)
  have "daily_labor (post_entry n e st) = daily_labor (post_entry n e st')"
    using Cons.prems by (rule post_entry_daily_labor)
  then have "daily_labor (foldl (\<lambda>s e. post_entry n e s) (post_entry n e st) es)
           = daily_labor (foldl (\<lambda>s e. post_entry n e s) (post_entry n e st') es)"
    by (rule Cons.IH)
  then show ?case by simp
qed

lemma process_employee_schedules:
  "schedules (store (process_employee emp row days st))
     = apply_writes (map (entry_write (employee_id row)) (employee_entries emp days (last_times st)))
         (schedules (store st))"
  by (simp add: process_employee_def post_entries_schedules)

lemma process_employee_last_times:
  "last_times (process_employee emp row days st) = snd (snd (first_pass days (0, [], last_times st)))"
  by (simp add: process_employee_def)

lemma process_employee_daily_labor:
  "daily_labor st = daily_labor st' \<Longrightarrow> last_times st = last_times st' \<Longrightarrow>
   daily_labor (process_employee emp row days st) = daily_labor (process_employee emp row days st')"
proof -
  assume a: "daily_labor st = daily_labor st'" and b: "last_times st = last_times st'"
  have "daily_labor (foldl (\<lambda>s e. post_entry (employee_id row) e s) st
                      (employee_entries emp days (last_times st')))
      = daily_labor (foldl (\<lambda>s e. post_entry (employee_id row) e s) st'
                      (employee_entries emp days (last_times st')))"
    using a by (rule post_entries_daily_labor)
  then show ?thesis by (simp add: process_employee_def b)
qed

lemma process_rows_schedules:
  "schedules (store (fst (process_rows dates date_closed df st)))
     = apply_writes (row_writes (employees (store st)) dates date_closed df (last_times st))
         (schedules (store st))"
proof (induction df arbitrary: st)
  case Nil
  then show ?case by (simp add: apply_writes_def)
next
  case (Cons row df)
  show ?case
  proof (cases "find (\<lambda>e. emp_id e = employee_id row) (employees (store st))")
    case None
    then show ?thesis by (simp add: apply_writes_def)
  next
    case (Some emp)
    let ?st' = "process_employee emp row (week_days dates date_closed row) st"
    have e: "employees (store ?st') = employees (store st)"
      using process_employee_inv [of emp row "week_days dates date_closed row" st] by simp
    show ?thesis
      using Cons.IH [of ?st'] Some
      by (simp add: e process_employee_schedules process_employee_last_times apply_writes_append)
  qed
qed

lemma process_rows_independent:
  "daily_labor st = daily_labor st' \<Longrightarrow> last_times st = last_times st' \<Longrightarrow>
   employees (store st) = employees (store st') \<Longrightarrow>
   daily_labor (fst (process_rows dates date_closed df st))
     = daily_labor (fst (process_rows dates date_closed df st'))
   \<and> snd (process_rows dates date_closed df st) = snd (process_rows dates date_closed df st')"
proof (induction df arbitrary: st st')
  case Nil
  then show ?case by simp
next
  case (Cons row df)
  show ?case
  proof (cases "find (\<lambda>e. emp_id e = employee_id row) (employees (store st))")
    case None
    then show ?thesis using Cons.prems by simp
  next
    case (Some emp)
    let ?days = "week_days dates date_closed row"
    have a: "daily_labor (process_employee emp row ?days st) = daily_labor (process_employee emp row ?days st')"
      using Cons.prems(1,2) by (rule process_employee_daily_labor)
    have b: "last_times (process_employee emp row ?days st) = last_times (process_employee emp row ?days st')"
      using Cons.prems(2) by (simp add: process_employee_last_times)
    have c: "employees (store (process_employee emp row ?days st))
             = employees (store (process_employee emp row ?days st'))"
      using Cons.prems(3) process_employee_inv [of emp row ?days st]
            process_employee_inv [of emp row ?days st'] by simp
    note ih = Cons.IH [OF a b c]
    have s': "find (\<lambda>e. emp_id e = employee_id row) (employees (store st')) = Some emp"
      using Some Cons.prems(3) by simp
    show ?thesis unfolding process_rows.simps Some s' using ih by simp
  qed
qed

lemma save_daily_totals_writes:
  "save_daily_totals pct dl d = d\<lparr>labor_costs := apply_writes (labor_writes pct dl) (labor_costs d)\<rparr>"
  by (induction dl arbitrary: d) (auto simp: apply_writes_def save_labor_cost_def)

lemma find_key_none: "find (\<lambda>r. fst (snd r) = k) rs = None \<Longrightarrow> k \<notin> set (map (\<lambda>r. fst (snd r)) rs)"
  by (induction rs) (auto split: if_splits)

lemma update_keeps_keys:
  "map (\<lambda>r. fst (snd r)) (map (\<lambda>x. if fst x = i then (fst x, fst (snd x), v) else x) rs)
     = map (\<lambda>r. fst (snd r)) rs"
  by (induction rs) auto

lemma upsert_keys_distinct:
  assumes "distinct (map (\<lambda>r. fst (snd r)) (rows t))"
  shows "distinct (map (\<lambda>r. fst (snd r)) (rows (upsert k v t)))"
proof (cases "find (\<lambda>r. fst (snd r) = k) (rows t)")
  case None
  then show ?thesis using assms find_key_none [OF None]
    by (simp add: upsert_rows_insert)
next
  case (Some r)
  then show ?thesis using assms
    by (simp add: upsert_rows_update update_keeps_keys del: map_map)
qed

lemma apply_writes_keys_distinct:
  "distinct (map (\<lambda>r. fst (snd r)) (rows t)) \<Longrightarrow>
   distinct (map (\<lambda>r. fst (snd r)) (rows (apply_writes ws t)))"
proof (induction ws arbitrary: t)
  case Nil
  then show ?case by (simp add: apply_writes_def)
next
  case (Cons w ws)
  have "distinct (map (\<lambda>r. fst (snd r)) (rows (upsert (fst w) (snd w) t)))"
    using Cons.prems by (rule upsert_keys_distinct)
  then show ?case unfolding apply_writes_Cons by (rule Cons.IH)
qed

lemma apply_writes_Nil: "apply_writes [] t = t"
  by (simp add: apply_writes_def)

lemma calculate_shape:
  "calculate_labor_costs df dates date_closed stg d =
     (d\<lparr>schedules := apply_writes (row_writes (employees d) dates date_closed df (None, None)) (schedules d),
        labor_costs :=
          apply_writes
            (if snd (process_rows dates date_closed df (initial_state dates d)) = None
             then labor_writes (labor_goal_percentage stg)
                    (daily_labor (fst (process_rows dates date_closed df (initial_state dates d))))
             else [])
            (labor_costs d)\<rparr>,
      snd (process_rows dates date_closed df (initial_state dates d)))"
proof -
  let ?r = "process_rows dates date_closed df (initial_state dates d)"
  have sch: "schedules (store (fst ?r))
             = apply_writes (row_writes (employees d) dates date_closed df (None, None)) (schedules d)"
    using process_rows_schedules [of dates date_closed df "initial_state dates d"]
    by (simp add: initial_state_def)
  have inv: "labor_costs (store (fst ?r)) = labor_costs d" "employees (store (fst ?r)) = employees d"
    using process_rows_inv [of dates date_closed df "initial_state dates d"]
    by (simp_all add: initial_state_def)
  have st: "store (fst ?r)
            = d\<lparr>schedules := apply_writes (row_writes (employees d) dates date_closed df (None, None))
                               (schedules d)\<rparr>"
    using sch inv by (cases "store (fst ?r)"; cases d) simp
  show ?thesis
  proof (cases "snd ?r")
    case None
    then have "calculate_labor_costs df dates date_closed stg d
               = (save_daily_totals (labor_goal_percentage stg) (daily_labor (fst ?r)) (store (fst ?r)), None)"
      by (cases ?r) (simp add: calculate_labor_costs_def)
    then show ?thesis using None
      by (simp add: save_daily_totals_writes st)
  next
    case (Some err)
    then have "calculate_labor_costs df dates date_closed stg d = (store (fst ?r), Some err)"
      by (cases ?r) (simp add: calculate_labor_costs_def)
    then show ?thesis using Some
      by (simp add: st apply_writes_Nil)
  qed
qed

text \<open>
  C8.  On a database whose two tables have distinct ids below their counters, a second
  run with the same arguments returns the database of the first run, rows and counters
  alike, and the same outcome.  A run updates the row of a key that is present and
  inserts a row otherwise, so that keys which were distinct in a table stay distinct:
  \<open>(employee_id, date)\<close> in the schedules and the date in the labor costs.
\<close>

theorem calculate_twice:
  assumes "wf_db d"
  shows "calculate_labor_costs df dates date_closed stg
           (fst (calculate_labor_costs df dates date_closed stg d))
         = calculate_labor_costs df dates date_closed stg d
       \<and> wf_db (fst (calculate_labor_costs df dates date_closed stg d))
       \<and> (distinct (map (\<lambda>r. fst (snd r)) (rows (schedules d))) \<longrightarrow>
            distinct (map (\<lambda>r. fst (snd r))
              (rows (schedules (fst (calculate_labor_costs df dates date_closed stg d))))))
       \<and> (distinct (map (\<lambda>r. fst (snd r)) (rows (labor_costs d))) \<longrightarrow>
            distinct (map (\<lambda>r. fst (snd r))
              (rows (labor_costs (fst (calculate_labor_costs df dates date_closed stg d))))))"
proof -
  define r where "r = process_rows dates date_closed df (initial_state dates d)"
  define ws where "ws = row_writes (employees d) dates date_closed df (None, None)"
  define lws where "lws = (if snd r = None
      then labor_writes (labor_goal_percentage stg) (daily_labor (fst r)) else [])"
  define d' where "d' = d\<lparr>schedules := apply_writes ws (schedules d),
                           labor_costs := apply_writes lws (labor_costs d)\<rparr>"
  define r' where "r' = process_rows dates date_closed df (initial_state dates d')"
  have first: "calculate_labor_costs df dates date_closed stg d = (d', snd r)"
    unfolding d'_def lws_def ws_def r_def by (rule calculate_shape)
  have wf: "wf_table (schedules d)" "wf_table (labor_costs d)"
    using assms by (simp_all add: wf_db_def)
  have parts: "employees d' = employees d" "schedules d' = apply_writes ws (schedules d)"
              "labor_costs d' = apply_writes lws (labor_costs d)"
    by (simp_all add: d'_def)
  have same: "daily_labor (fst r') = daily_labor (fst r) \<and> snd r' = snd r"
    unfolding r'_def r_def
    by (rule process_rows_independent) (simp_all add: initial_state_def parts(1))
  have "calculate_labor_costs df dates date_closed stg d' =
     (d'\<lparr>schedules := apply_writes (row_writes (employees d') dates date_closed df (None, None)) (schedules d'),
        labor_costs :=
          apply_writes
            (if snd r' = None
             then labor_writes (labor_goal_percentage stg) (daily_labor (fst r'))
             else [])
            (labor_costs d')\<rparr>,
      snd r')"
    unfolding r'_def by (rule calculate_shape)
  then have second: "calculate_labor_costs df dates date_closed stg d' =
     (d'\<lparr>schedules := apply_writes ws (schedules d'),
         labor_costs := apply_writes lws (labor_costs d')\<rparr>, snd r)"
    using same by (simp add: parts(1) ws_def lws_def)
  have t1: "apply_writes ws (schedules d') = schedules d'"
    unfolding parts(2) using wf(1) by (rule apply_writes_twice)
  have t2: "apply_writes lws (labor_costs d') = labor_costs d'"
    unfolding parts(3) using wf(2) by (rule apply_writes_twice)
  have "calculate_labor_costs df dates date_closed stg d' = (d', snd r)"
    unfolding second t1 t2 by simp
  then have idem: "calculate_labor_costs df dates date_closed stg
           (fst (calculate_labor_costs df dates date_closed stg d))
         = calculate_labor_costs df dates date_closed stg d"
    unfolding first by simp
  have wf': "wf_db (fst (calculate_labor_costs df dates date_closed stg d))"
    unfolding first using wf by (simp add: wf_db_def parts wf_table_apply_writes)
  have k1: "distinct (map (\<lambda>r. fst (snd r))
              (rows (schedules (fst (calculate_labor_costs df dates date_closed stg d)))))"
    if "distinct (map (\<lambda>r. fst (snd r)) (rows (schedules d)))"
    unfolding first using that by (simp add: parts apply_writes_keys_distinct)
  have k2: "distinct (map (\<lambda>r. fst (snd r))
              (rows (labor_costs (fst (calculate_labor_costs df dates date_closed stg d)))))"
    if "distinct (map (\<lambda>r. fst (snd r)) (rows (labor_costs d)))"
    unfolding first using that by (simp add: parts apply_writes_keys_distinct)
  show ?thesis using idem wf' k1 k2 by blast
qed

theorem calculate_twice_witness:
  "wf_db stale_db
   \<and> calculate_labor_costs example_frame week_dates week_closed \<lparr>labor_goal_percentage = 25\<rparr>
        (fst (calculate_labor_costs example_frame week_dates week_closed
                \<lparr>labor_goal_percentage = 25\<rparr> stale_db))
      = calculate_labor_costs example_frame week_dates week_closed \<lparr>labor_goal_percentage = 25\<rparr> stale_db
   \<and> distinct (map (\<lambda>r. fst (snd r)) (rows (schedules stale_db)))
   \<and> distinct (map (\<lambda>r. fst (snd r))
        (rows (schedules (fst (calculate_labor_costs example_frame week_dates week_closed
                                 \<lparr>labor_goal_percentage = 25\<rparr> stale_db)))))
   \<and> distinct (map (\<lambda>r. fst (snd r)) (rows (labor_costs stale_db)))
   \<and> distinct (map (\<lambda>r. fst (snd r))
        (rows (labor_costs (fst (calculate_labor_costs example_frame week_dates week_closed
                                   \<lparr>labor_goal_percentage = 25\<rparr> stale_db)))))
   \<and> map (\<lambda>r. fst (snd r))
        (rows (labor_costs (fst (calculate_labor_costs example_frame week_dates week_closed
                                   \<lparr>labor_goal_percentage = 25\<rparr> stale_db))))
      = [5, 1, 2, 3, 4]"
proof -
  have h: "wf_db stale_db" by code_simp
  have k1: "distinct (map (\<lambda>r. fst (snd r)) (rows (schedules stale_db)))" by code_simp
  have k2: "distinct (map (\<lambda>r. fst (snd r)) (rows (labor_costs stale_db)))" by code_simp
  have v: "map (\<lambda>r. fst (snd r))
        (rows (labor_costs (fst (calculate_labor_costs example_frame week_dates week_closed
                                   \<lparr>labor_goal_percentage = 25\<rparr> stale_db))))
      = [5, 1, 2, 3, 4]"
    by code_simp
  note c2 = conjunct2
  note T = calculate_twice [OF h, where df = example_frame and dates = week_dates
             and date_closed = week_closed and stg = "\<lparr>labor_goal_percentage = 25\<rparr>"]
  note K1 = T [THEN c2, THEN c2, THEN conjunct1, THEN mp, OF k1]
  note K2 = T [THEN c2, THEN c2, THEN c2, THEN mp, OF k2]
  show ?thesis
    by (intro conjI) (rule h k1 k2 v K1 K2 T [THEN conjunct1])+
qed

end
